theory Spec2Isabelle
  imports Main "HOL-Library.Word" "HOL-Library.Sublist"
begin

section \<open>The configuration loader of creastat/infra (config/loader.go)\<close>

text \<open>
  The loader fills a caller-owned Go value in four steps: a YAML or JSON file is decoded
  into it, environment variables override its struct fields, variable references inside
  its strings are expanded, and its \<^verbatim>\<open>SetDefaults\<close> method is called when it has one.
  The Go code walks the value with package \<^verbatim>\<open>reflect\<close>; the model below walks a datatype of
  Go values that keeps what \<^verbatim>\<open>reflect\<close> looks at: the kind of each value, the name, the
  \<^verbatim>\<open>env\<close> tag and the visibility of each struct field, and whether a value may be set.
  In-place mutation is explicit state passing: each function returns the new value.
  The value is a tree (no object is reached by two paths), as the specification assumes.
\<close>

subsection \<open>Bytes and strings\<close>

text \<open>
  A Go string is a byte sequence, here a \<^typ>\<open>string\<close>. \<^verbatim>\<open>strings.ToUpper\<close> and
  \<^verbatim>\<open>strings.ToLower\<close> are modelled on ASCII letters; any other byte is kept (Go maps
  non-ASCII letters by their Unicode case, which no field name or extension of the
  repository uses).
\<close>

definition byte :: "char \<Rightarrow> int" where
  "byte c = of_char c"

definition is_upper :: "char \<Rightarrow> bool" where
  "is_upper c = (65 \<le> byte c \<and> byte c \<le> 90)"

definition is_lower :: "char \<Rightarrow> bool" where
  "is_lower c = (97 \<le> byte c \<and> byte c \<le> 122)"

definition is_digit :: "char \<Rightarrow> bool" where
  "is_digit c = (48 \<le> byte c \<and> byte c \<le> 57)"

definition upper_byte :: "char \<Rightarrow> char" where
  "upper_byte c = (if is_lower c then char_of (byte c - 32) else c)"

definition lower_byte :: "char \<Rightarrow> char" where
  "lower_byte c = (if is_upper c then char_of (byte c + 32) else c)"

definition ToUpper :: "string \<Rightarrow> string" where
  "ToUpper s = map upper_byte s"

definition ToLower :: "string \<Rightarrow> string" where
  "ToLower s = map lower_byte s"

subsection \<open>Go values as reflect sees them\<close>

text \<open>The kinds of \<^verbatim>\<open>reflect\<close>, \<open>K\<close> before the name.\<close>

datatype int_kind = KInt | KInt8 | KInt16 | KInt32 | KInt64

datatype uint_kind = KUint | KUint8 | KUint16 | KUint32 | KUint64

datatype float_kind = KFloat32 | KFloat64

text \<open>A float is its 64 IEEE bits; the loader never computes with floats.\<close>

datatype float64 = Float64bits "64 word"

text \<open>
  A struct field is exported, unexported, or an embedded field of an unexported type
  (\<^verbatim>\<open>reflect\<close> marks the last two read-only, in two different ways).
\<close>

datatype visibility = Exported | Unexported | EmbeddedUnexported

text \<open>
  \<open>VInt\<close> and \<open>VString\<close> carry the name of their Go type (\<^verbatim>\<open>Type().String()\<close>):
  the loader compares the first with \<^verbatim>\<open>time.Duration\<close>, and \<^verbatim>\<open>reflect\<close> refuses to store a
  plain \<^verbatim>\<open>string\<close> in a map whose element type is a named string type.
  \<open>VPtr None\<close> is a nil pointer and \<open>VIface None\<close> a nil interface value; interface
  types are the empty interface \<^verbatim>\<open>any\<close>. A map is the list of its entries, keys distinct.
  \<open>VOther k\<close> is a value of any other kind (uintptr, complex64, complex128, chan, func,
  unsafe.Pointer), \<open>k\<close> the name of the kind.
\<close>

datatype gvalue =
    VBool bool
  | VInt int_kind string int
  | VUint uint_kind int
  | VFloat float_kind float64
  | VString string string
  | VStruct "field list"
  | VMap "(gvalue \<times> gvalue) list"
  | VSlice "gvalue list"
  | VArray "gvalue list"
  | VPtr "gvalue option"
  | VIface "gvalue option"
  | VOther string
and field = Field (fname: string) (ftag: string) (fvis: visibility) (fval: gvalue)

text \<open>\<^verbatim>\<open>Kind().String()\<close> of a value, as the error message of \<open>setFieldValue\<close> prints it.\<close>

fun kind_name :: "gvalue \<Rightarrow> string" where
  "kind_name (VBool _) = ''bool''"
| "kind_name (VInt KInt _ _) = ''int''"
| "kind_name (VInt KInt8 _ _) = ''int8''"
| "kind_name (VInt KInt16 _ _) = ''int16''"
| "kind_name (VInt KInt32 _ _) = ''int32''"
| "kind_name (VInt KInt64 _ _) = ''int64''"
| "kind_name (VUint KUint _) = ''uint''"
| "kind_name (VUint KUint8 _) = ''uint8''"
| "kind_name (VUint KUint16 _) = ''uint16''"
| "kind_name (VUint KUint32 _) = ''uint32''"
| "kind_name (VUint KUint64 _) = ''uint64''"
| "kind_name (VFloat KFloat32 _) = ''float32''"
| "kind_name (VFloat KFloat64 _) = ''float64''"
| "kind_name (VString _ _) = ''string''"
| "kind_name (VStruct _) = ''struct''"
| "kind_name (VMap _) = ''map''"
| "kind_name (VSlice _) = ''slice''"
| "kind_name (VArray _) = ''array''"
| "kind_name (VPtr _) = ''ptr''"
| "kind_name (VIface _) = ''interface''"
| "kind_name (VOther k) = k"

subsection \<open>Errors\<close>

datatype err_kind = ErrSyntax | ErrRange

text \<open>
  \<open>NumError f s e\<close> is \<^verbatim>\<open>*strconv.NumError{Func: f, Num: s, Err: e}\<close>; \<open>UnsupportedType k\<close>
  is the error \<^verbatim>\<open>unsupported field type: k\<close> of \<open>setFieldValue\<close>.
\<close>

datatype cause = NumError string string err_kind | UnsupportedType string

text \<open>
  The errors of the loader, each a \<^verbatim>\<open>fmt.Errorf\<close> in the source:
  \<^item> \<open>FieldBindError n k c\<close>: \<^verbatim>\<open>failed to set field n from env k: c\<close>;
  \<^item> \<open>InvalidTargetError\<close>: \<^verbatim>\<open>config must be a pointer to a struct\<close>, and
    \<open>InvalidPointerError\<close>: \<^verbatim>\<open>config must be a pointer\<close>;
  \<^item> \<open>ConfigReadError c\<close>: \<^verbatim>\<open>failed to read config file: c\<close>;
  \<^item> \<open>ConfigParseError f c\<close>: \<^verbatim>\<open>failed to parse f config: c\<close>, \<open>f\<close> being YAML or JSON;
  \<^item> \<open>UnsupportedFormatError e\<close>: \<^verbatim>\<open>unsupported config file format: e (supported: ...)\<close>;
  \<^item> \<open>Wrapped m e\<close>: \<^verbatim>\<open>m: e\<close>, the wrapping done by \<open>Load\<close>.
\<close>

datatype error =
    FieldBindError string string cause
  | InvalidTargetError
  | InvalidPointerError
  | ConfigReadError string
  | ConfigParseError string string
  | UnsupportedFormatError string
  | Wrapped string error

subsection \<open>The world outside the loader\<close>

datatype read_result = NotExist | ReadFailed string | Content string

text \<open>
  What the loader calls and the repository does not define:
  \<^item> \<open>environ\<close>: the process environment;
  \<^item> \<open>ReadFile\<close>: \<^verbatim>\<open>os.ReadFile\<close>, with \<open>NotExist\<close> the errors \<^verbatim>\<open>os.IsNotExist\<close> accepts;
  \<^item> \<open>parse_float\<close>: the value \<^verbatim>\<open>strconv.ParseFloat(s, 64)\<close> returns, or the reason it
    gives for an error; \<open>to_float32\<close>: the conversion \<^verbatim>\<open>float32(x)\<close>, read back as a float64;
  \<^item> \<open>yaml_Unmarshal\<close>, \<open>json_Unmarshal\<close>: the decoders, which return the target as they
    left it and the error, if any.
\<close>

record world =
  environ :: "string \<Rightarrow> string option"
  ReadFile :: "string \<Rightarrow> read_result"
  parse_float :: "string \<Rightarrow> err_kind + float64"
  to_float32 :: "float64 \<Rightarrow> float64"
  yaml_Unmarshal :: "string \<Rightarrow> gvalue \<Rightarrow> gvalue \<times> string option"
  json_Unmarshal :: "string \<Rightarrow> gvalue \<Rightarrow> gvalue \<times> string option"

text \<open>\<^verbatim>\<open>os.Getenv\<close>: the value of the variable, empty when it is not set.\<close>

definition Getenv :: "(string \<Rightarrow> string option) \<Rightarrow> string \<Rightarrow> string" where
  "Getenv env k = (case env k of None \<Rightarrow> [] | Some v \<Rightarrow> v)"

subsection \<open>strconv, base 10 and 64 bits\<close>

text \<open>
  The digit loop of \<^verbatim>\<open>strconv.ParseUint(s, 10, 64)\<close>: a byte that is not a decimal digit is
  a syntax error, a value above \<open>2^64 - 1\<close> a range error, whichever comes first.
\<close>

fun parse_digits :: "int \<Rightarrow> string \<Rightarrow> err_kind + int" where
  "parse_digits n [] = Inr n"
| "parse_digits n (c # cs) =
     (if \<not> is_digit c then Inl ErrSyntax
      else if 2 ^ 64 \<le> n * 10 + (byte c - 48) then Inl ErrRange
      else parse_digits (n * 10 + (byte c - 48)) cs)"

definition ParseUint :: "string \<Rightarrow> cause + int" where
  "ParseUint s =
     (if s = [] then Inl (NumError ''ParseUint'' s ErrSyntax)
      else case parse_digits 0 s of
             Inl e \<Rightarrow> Inl (NumError ''ParseUint'' s e)
           | Inr n \<Rightarrow> Inr n)"

definition ParseInt :: "string \<Rightarrow> cause + int" where
  "ParseInt s0 =
     (if s0 = [] then Inl (NumError ''ParseInt'' s0 ErrSyntax)
      else
        let neg = (hd s0 = CHR ''-'');
            s = (if hd s0 = CHR ''+'' \<or> hd s0 = CHR ''-'' then tl s0 else s0)
        in if s = [] then Inl (NumError ''ParseInt'' s0 ErrSyntax)
           else case parse_digits 0 s of
                  Inl e \<Rightarrow> Inl (NumError ''ParseInt'' s0 e)
                | Inr un \<Rightarrow>
                    if \<not> neg \<and> 2 ^ 63 \<le> un then Inl (NumError ''ParseInt'' s0 ErrRange)
                    else if neg \<and> 2 ^ 63 < un then Inl (NumError ''ParseInt'' s0 ErrRange)
                    else Inr (if neg then - un else un))"

text \<open>An error of \<^verbatim>\<open>strconv.ParseFloat\<close> is a \<^verbatim>\<open>*NumError\<close> that holds the text it was given.\<close>

definition ParseFloat :: "world \<Rightarrow> string \<Rightarrow> cause + float64" where
  "ParseFloat w s =
     (case parse_float w s of
        Inl e \<Rightarrow> Inl (NumError ''ParseFloat'' s e)
      | Inr x \<Rightarrow> Inr x)"

definition ParseBool :: "string \<Rightarrow> cause + bool" where
  "ParseBool s =
     (if s \<in> set [''1'', ''t'', ''T'', ''TRUE'', ''true'', ''True''] then Inr True
      else if s \<in> set [''0'', ''f'', ''F'', ''FALSE'', ''false'', ''False''] then Inr False
      else Inl (NumError ''ParseBool'' s ErrSyntax))"

text \<open>
  \<^verbatim>\<open>reflect.Value.SetInt\<close> and \<^verbatim>\<open>SetUint\<close> convert the 64-bit argument to the width of the
  field, which wraps silently. \<^verbatim>\<open>int\<close> and \<^verbatim>\<open>uint\<close> have 64 bits (a 64-bit platform).
\<close>

fun int_bits :: "int_kind \<Rightarrow> nat" where
  "int_bits KInt = 64"
| "int_bits KInt8 = 8"
| "int_bits KInt16 = 16"
| "int_bits KInt32 = 32"
| "int_bits KInt64 = 64"

fun uint_bits :: "uint_kind \<Rightarrow> nat" where
  "uint_bits KUint = 64"
| "uint_bits KUint8 = 8"
| "uint_bits KUint16 = 16"
| "uint_bits KUint32 = 32"
| "uint_bits KUint64 = 64"

definition SetInt :: "int_kind \<Rightarrow> int \<Rightarrow> int" where
  "SetInt k x = signed_take_bit (int_bits k - 1) x"

definition SetUint :: "uint_kind \<Rightarrow> int \<Rightarrow> int" where
  "SetUint k x = take_bit (uint_bits k) x"

definition SetFloat :: "world \<Rightarrow> float_kind \<Rightarrow> float64 \<Rightarrow> float64" where
  "SetFloat w k x = (case k of KFloat32 \<Rightarrow> to_float32 w x | KFloat64 \<Rightarrow> x)"

subsection \<open>Phase 2: the environment overlay\<close>

text \<open>
  \<open>setFieldValue\<close> (loader.go, lines 144 to 188): the new value of the field, or the
  error. The two branches for integers (\<^verbatim>\<open>time.Duration\<close> or not) are the same in the source.
\<close>

fun setFieldValue :: "world \<Rightarrow> gvalue \<Rightarrow> string \<Rightarrow> cause + gvalue" where
  "setFieldValue w (VString tn _) value = Inr (VString tn value)"
| "setFieldValue w (VInt k tn _) value =
     (if tn = ''time.Duration''
      then (case ParseInt value of
              Inl e \<Rightarrow> Inl e
            | Inr intVal \<Rightarrow> Inr (VInt k tn (SetInt k intVal)))
      else (case ParseInt value of
              Inl e \<Rightarrow> Inl e
            | Inr intVal \<Rightarrow> Inr (VInt k tn (SetInt k intVal))))"
| "setFieldValue w (VUint k _) value =
     (case ParseUint value of
        Inl e \<Rightarrow> Inl e
      | Inr uintVal \<Rightarrow> Inr (VUint k (SetUint k uintVal)))"
| "setFieldValue w (VBool _) value =
     (case ParseBool value of
        Inl e \<Rightarrow> Inl e
      | Inr boolVal \<Rightarrow> Inr (VBool boolVal))"
| "setFieldValue w (VFloat k _) value =
     (case ParseFloat w value of
        Inl e \<Rightarrow> Inl e
      | Inr floatVal \<Rightarrow> Inr (VFloat k (SetFloat w k floatVal)))"
| "setFieldValue w v value = Inl (UnsupportedType (kind_name v))"

text \<open>The key of a field: its \<^verbatim>\<open>env\<close> tag, or its name in upper case when it has none.\<close>

definition envKey :: "field \<Rightarrow> string" where
  "envKey f = (if ftag f = [] then ToUpper (fname f) else ftag f)"

text \<open>
  \<open>loadStructFromEnv\<close> (lines 97 to 141) over the fields of a struct, in order. The
  result is the fields as the call leaves them (also when it fails: the fields set
  before the failure stay set), the error if any, and the keys passed to
  \<^verbatim>\<open>os.Getenv\<close>, in order. A field of the struct passed by \<open>loadFromEnv\<close>, and of every
  struct reached from it, can be set exactly when it is exported.
\<close>

fun loadStructFromEnv ::
  "world \<Rightarrow> field list \<Rightarrow> string \<Rightarrow> field list \<times> error option \<times> string list" where
  "loadStructFromEnv w [] pfx = ([], None, [])"
| "loadStructFromEnv w (Field name tag vis val # rest) pfx =
     (if vis \<noteq> Exported \<or> envKey (Field name tag vis val) = ''-''
      then (case loadStructFromEnv w rest pfx of
              (rest', e, rd) \<Rightarrow> (Field name tag vis val # rest', e, rd))
      else
        let fullKey = pfx @ envKey (Field name tag vis val) in
        case val of
          VStruct inner \<Rightarrow>
            (case loadStructFromEnv w inner (fullKey @ ''_'') of
               (inner', Some e, rd) \<Rightarrow> (Field name tag vis (VStruct inner') # rest, Some e, rd)
             | (inner', None, rd) \<Rightarrow>
                 (case loadStructFromEnv w rest pfx of
                    (rest', e, rd') \<Rightarrow> (Field name tag vis (VStruct inner') # rest', e, rd @ rd')))
        | _ \<Rightarrow>
            let envValue = Getenv (environ w) fullKey in
            if envValue = []
            then (case loadStructFromEnv w rest pfx of
                    (rest', e, rd) \<Rightarrow> (Field name tag vis val # rest', e, fullKey # rd))
            else (case setFieldValue w val envValue of
                    Inl c \<Rightarrow> (Field name tag vis val # rest, Some (FieldBindError name fullKey c), [fullKey])
                  | Inr val' \<Rightarrow>
                      (case loadStructFromEnv w rest pfx of
                         (rest', e, rd) \<Rightarrow> (Field name tag vis val' # rest', e, fullKey # rd))))"

text \<open>
  \<open>loadFromEnv\<close> (lines 87 to 94): the target must be a non-nil pointer to a struct.
\<close>

fun loadFromEnv :: "world \<Rightarrow> string \<Rightarrow> gvalue \<Rightarrow> gvalue \<times> error option \<times> string list" where
  "loadFromEnv w envPrefix (VPtr (Some (VStruct fs))) =
     (case loadStructFromEnv w fs envPrefix of
        (fs', e, rd) \<Rightarrow> (VPtr (Some (VStruct fs')), e, rd))"
| "loadFromEnv w envPrefix config = (config, Some InvalidTargetError, [])"


subsection \<open>Phase 3: interpolation\<close>

text \<open>
  The regular expression of \<open>expandEnvVar\<close> (line 242) is
  \<^verbatim>\<open>\$\{([^}]+)\}|\$([A-Z_][A-Z0-9_]*)\<close>. \<open>match_here s\<close> is the length of its match at the
  start of \<open>s\<close>, if there is one: a dollar and an opening brace, then the bytes up to
  the next closing brace, which must exist and must not come at once; or a dollar, a
  byte of \<^verbatim>\<open>[A-Z_]\<close> and the longest run of \<^verbatim>\<open>[A-Z0-9_]\<close>. The second alternative cannot
  match where the first one was tried and failed: a brace is not in \<^verbatim>\<open>[A-Z_]\<close>.
\<close>

definition is_name_start :: "char \<Rightarrow> bool" where
  "is_name_start c = (is_upper c \<or> c = CHR ''_'')"

definition is_name_char :: "char \<Rightarrow> bool" where
  "is_name_char c = (is_upper c \<or> is_digit c \<or> c = CHR ''_'')"

fun match_here :: "string \<Rightarrow> nat option" where
  "match_here (c1 # c2 # rest) =
     (if c1 \<noteq> CHR ''$'' then None
      else if c2 = CHR ''{''
      then (let body = takeWhile (\<lambda>c. c \<noteq> CHR ''}'') rest
            in if body \<noteq> [] \<and> length body < length rest then Some (length body + 3) else None)
      else if is_name_start c2 then Some (2 + length (takeWhile is_name_char rest))
      else None)"
| "match_here s = None"

text \<open>
  \<^verbatim>\<open>regexp.ReplaceAllStringFunc\<close>: the matches are found from left to right and do not
  overlap; each is replaced by what \<open>repl\<close> returns for it, and the replacement is not
  scanned again.
\<close>

function ReplaceAllStringFunc :: "(string \<Rightarrow> string) \<Rightarrow> string \<Rightarrow> string" where
  "ReplaceAllStringFunc repl [] = []"
| "ReplaceAllStringFunc repl (c # cs) =
     (case match_here (c # cs) of
        Some n \<Rightarrow> repl (take n (c # cs)) @ ReplaceAllStringFunc repl (drop (n - 1) cs)
      | None \<Rightarrow> c # ReplaceAllStringFunc repl cs)"
  by pat_completeness auto
termination
  by (relation "measure (\<lambda>(repl, s). length s)") auto

text \<open>
  \<open>cut sep s\<close> splits \<open>s\<close> at the first occurrence of \<open>sep\<close>: \<^verbatim>\<open>strings.Contains(s, sep)\<close>
  holds when it is not \<open>None\<close>, and \<^verbatim>\<open>strings.SplitN(s, sep, 2)\<close> is then the pair.
\<close>

fun cut :: "string \<Rightarrow> string \<Rightarrow> (string \<times> string) option" where
  "cut sep [] = (if sep = [] then Some ([], []) else None)"
| "cut sep (c # cs) =
     (if prefix sep (c # cs) then Some ([], drop (length sep) (c # cs))
      else map_option (\<lambda>(a, b). (c # a, b)) (cut sep cs))"

text \<open>
  The function \<open>expandEnvVar\<close> passes to \<^verbatim>\<open>ReplaceAllStringFunc\<close> (lines 244 to 275):
  \<open>content\<close> is \<^verbatim>\<open>match[2 : len(match)-1]\<close>.
\<close>

definition expand_match :: "(string \<Rightarrow> string option) \<Rightarrow> string \<Rightarrow> string" where
  "expand_match env match =
     (let (varName, defaultValue) =
            (if prefix ''${'' match
             then let content = drop 2 (take (length match - 1) match)
                  in (case cut '':-'' content of
                        Some (name, dflt) \<Rightarrow> (name, dflt)
                      | None \<Rightarrow> (content, []))
             else (drop 1 match, []))
      in if Getenv env varName \<noteq> [] then Getenv env varName
         else if defaultValue \<noteq> [] then defaultValue
         else match)"

definition expandEnvVar :: "(string \<Rightarrow> string option) \<Rightarrow> string \<Rightarrow> string" where
  "expandEnvVar env s = ReplaceAllStringFunc (expand_match env) s"

text \<open>
  What \<^verbatim>\<open>reflect\<close> knows of a value besides its contents: whether it is addressable, and
  whether it was reached through an unexported field. \<open>EmbedRO\<close> marks an embedded field
  of an unexported type: the field is read-only, the exported fields inside it are not.
  \<open>StickyRO\<close> marks an unexported field, and everything reached through it.
  \<^verbatim>\<open>CanSet\<close> holds for an addressable value that is not read-only.
\<close>

datatype ro_flag = RW | EmbedRO | StickyRO

definition CanSet :: "bool \<Rightarrow> ro_flag \<Rightarrow> bool" where
  "CanSet addr r = (addr \<and> r = RW)"

text \<open>\<^verbatim>\<open>flag.ro()\<close>: what an element, a map value or the contents of an interface inherit.\<close>

definition sticky :: "ro_flag \<Rightarrow> ro_flag" where
  "sticky r = (if r = RW then RW else StickyRO)"

text \<open>\<^verbatim>\<open>Value.Field(i)\<close>: a field inherits \<open>StickyRO\<close> only, and adds its own mark.\<close>

fun field_ro :: "ro_flag \<Rightarrow> visibility \<Rightarrow> ro_flag" where
  "field_ro r Exported = (if r = StickyRO then StickyRO else RW)"
| "field_ro r Unexported = StickyRO"
| "field_ro r EmbeddedUnexported = (if r = StickyRO then StickyRO else EmbedRO)"

datatype panic = Panic string

definition panic_unexported :: panic where
  "panic_unexported =
     Panic ''reflect: reflect.Value.SetMapIndex using value obtained using unexported field''"

definition panic_not_assignable :: "string \<Rightarrow> panic" where
  "panic_not_assignable tn =
     Panic (''reflect.Value.SetMapIndex: value of type string is not assignable to type '' @ tn)"

text \<open>
  \<open>substituteValue\<close> (lines 202 to 237) on a value with its two flags; the result is the
  value after the call, or the panic of \<^verbatim>\<open>reflect\<close>.
  \<^item> A string is rewritten when it can be set.
  \<^item> The fields of a struct, the elements of a slice or an array, the value a non-nil
    pointer points to and the contents of a non-nil interface are visited. A slice
    element and the target of a pointer are addressable, an array element is when
    the array is, the contents of an interface are not.
  \<^item> \<open>substituteEntry\<close> is the body of the loop over the keys of a map: the value of the
    entry, taken out of its interface if it is in one, is replaced through
    \<^verbatim>\<open>SetMapIndex\<close> when it is a string, and visited (not addressable) otherwise.
    \<^verbatim>\<open>SetMapIndex\<close> panics on a read-only map, and when the new value, a plain
    \<^verbatim>\<open>string\<close>, cannot be assigned to the element type of the map.
\<close>

function (sequential) substituteValue :: "(string \<Rightarrow> string option) \<Rightarrow> bool \<Rightarrow> ro_flag \<Rightarrow> gvalue \<Rightarrow> panic + gvalue"
  and substituteFields :: "(string \<Rightarrow> string option) \<Rightarrow> bool \<Rightarrow> ro_flag \<Rightarrow> field list \<Rightarrow> panic + field list"
  and substituteElems :: "(string \<Rightarrow> string option) \<Rightarrow> bool \<Rightarrow> ro_flag \<Rightarrow> gvalue list \<Rightarrow> panic + gvalue list"
  and substituteEntries ::
    "(string \<Rightarrow> string option) \<Rightarrow> ro_flag \<Rightarrow> (gvalue \<times> gvalue) list \<Rightarrow> panic + (gvalue \<times> gvalue) list"
  and substituteEntry :: "(string \<Rightarrow> string option) \<Rightarrow> ro_flag \<Rightarrow> gvalue \<Rightarrow> panic + gvalue"
where
  "substituteValue env addr r (VString tn s) =
     Inr (if CanSet addr r then VString tn (expandEnvVar env s) else VString tn s)"
| "substituteValue env addr r (VStruct fs) =
     (case substituteFields env addr r fs of Inl p \<Rightarrow> Inl p | Inr fs' \<Rightarrow> Inr (VStruct fs'))"
| "substituteValue env addr r (VMap kvs) =
     (case substituteEntries env r kvs of Inl p \<Rightarrow> Inl p | Inr kvs' \<Rightarrow> Inr (VMap kvs'))"
| "substituteValue env addr r (VSlice xs) =
     (case substituteElems env True (sticky r) xs of Inl p \<Rightarrow> Inl p | Inr xs' \<Rightarrow> Inr (VSlice xs'))"
| "substituteValue env addr r (VArray xs) =
     (case substituteElems env addr (sticky r) xs of Inl p \<Rightarrow> Inl p | Inr xs' \<Rightarrow> Inr (VArray xs'))"
| "substituteValue env addr r (VPtr None) = Inr (VPtr None)"
| "substituteValue env addr r (VPtr (Some x)) =
     (case substituteValue env True r x of Inl p \<Rightarrow> Inl p | Inr x' \<Rightarrow> Inr (VPtr (Some x')))"
| "substituteValue env addr r (VIface None) = Inr (VIface None)"
| "substituteValue env addr r (VIface (Some x)) =
     (case substituteValue env False (sticky r) x of
        Inl p \<Rightarrow> Inl p
      | Inr x' \<Rightarrow> Inr (VIface (Some x')))"
| "substituteValue env addr r (VBool b) = Inr (VBool b)"
| "substituteValue env addr r (VInt k tn i) = Inr (VInt k tn i)"
| "substituteValue env addr r (VUint k n) = Inr (VUint k n)"
| "substituteValue env addr r (VFloat k x) = Inr (VFloat k x)"
| "substituteValue env addr r (VOther k) = Inr (VOther k)"
| "substituteFields env addr r [] = Inr []"
| "substituteFields env addr r (Field name tag vis val # rest) =
     (case substituteValue env addr (field_ro r vis) val of
        Inl p \<Rightarrow> Inl p
      | Inr val' \<Rightarrow>
          (case substituteFields env addr r rest of
             Inl p \<Rightarrow> Inl p
           | Inr rest' \<Rightarrow> Inr (Field name tag vis val' # rest')))"
| "substituteElems env addr r [] = Inr []"
| "substituteElems env addr r (x # xs) =
     (case substituteValue env addr r x of
        Inl p \<Rightarrow> Inl p
      | Inr x' \<Rightarrow>
          (case substituteElems env addr r xs of
             Inl p \<Rightarrow> Inl p
           | Inr xs' \<Rightarrow> Inr (x' # xs')))"
| "substituteEntries env r [] = Inr []"
| "substituteEntries env r ((key, val) # rest) =
     (case substituteEntry env r val of
        Inl p \<Rightarrow> Inl p
      | Inr val' \<Rightarrow>
          (case substituteEntries env r rest of
             Inl p \<Rightarrow> Inl p
           | Inr rest' \<Rightarrow> Inr ((key, val') # rest')))"
| "substituteEntry env r (VIface None) = Inr (VIface None)"
| "substituteEntry env r (VIface (Some (VString tn s))) =
     (if r \<noteq> RW then Inl panic_unexported
      else Inr (VIface (Some (VString ''string'' (expandEnvVar env s)))))"
| "substituteEntry env r (VIface (Some x)) =
     (case substituteValue env False (sticky r) x of
        Inl p \<Rightarrow> Inl p
      | Inr x' \<Rightarrow> Inr (VIface (Some x')))"
| "substituteEntry env r (VString tn s) =
     (if r \<noteq> RW then Inl panic_unexported
      else if tn \<noteq> ''string'' then Inl (panic_not_assignable tn)
      else Inr (VString tn (expandEnvVar env s)))"
| "substituteEntry env r val = substituteValue env False (sticky r) val"
  by pat_completeness auto
termination
  by (relation "measure (\<lambda>x. case x of
        Inl (Inl (env, addr, r, v)) \<Rightarrow> 2 * size v
      | Inl (Inr (env, addr, r, fs)) \<Rightarrow> 2 * size_list size fs
      | Inr (Inl (env, addr, r, xs)) \<Rightarrow> 2 * size_list size xs
      | Inr (Inr (Inl (env, r, kvs))) \<Rightarrow> 2 * size_list (size_prod size size) kvs
      | Inr (Inr (Inr (env, r, val))) \<Rightarrow> 2 * size val + 1)") auto

text \<open>
  \<open>substituteEnvVars\<close> (lines 191 to 199): the value a pointer points to is addressable
  and not read-only; a nil pointer has nothing to visit.
\<close>

fun substituteEnvVars :: "(string \<Rightarrow> string option) \<Rightarrow> gvalue \<Rightarrow> panic + gvalue \<times> error option" where
  "substituteEnvVars env (VPtr None) = Inr (VPtr None, None)"
| "substituteEnvVars env (VPtr (Some x)) =
     (case substituteValue env True RW x of
        Inl p \<Rightarrow> Inl p
      | Inr x' \<Rightarrow> Inr (VPtr (Some x'), None))"
| "substituteEnvVars env config = Inr (config, Some InvalidPointerError)"

subsection \<open>Phase 1 and the whole load\<close>

record loader =
  configPath :: string
  envPrefix :: string

definition NewLoader :: "string \<Rightarrow> string \<Rightarrow> loader" where
  "NewLoader path pfx = \<lparr>configPath = path, envPrefix = pfx\<rparr>"

text \<open>
  \<^verbatim>\<open>filepath.Ext\<close>, with \<^verbatim>\<open>/\<close> the path separator: the suffix from the last dot of the last
  element of the path, empty when that element has no dot. The scan goes from the end
  of the path; \<open>seen\<close> is what it has passed.
\<close>

fun Ext_scan :: "string \<Rightarrow> string \<Rightarrow> string" where
  "Ext_scan [] seen = []"
| "Ext_scan (c # cs) seen =
     (if c = CHR ''/'' then []
      else if c = CHR ''.'' then c # seen
      else Ext_scan cs (c # seen))"

definition Ext :: "string \<Rightarrow> string" where
  "Ext path = Ext_scan (rev path) []"

text \<open>
  \<open>loadFromFile\<close> (lines 59 to 84): the target as the call leaves it, and the error.
\<close>

definition loadFromFile :: "world \<Rightarrow> loader \<Rightarrow> gvalue \<Rightarrow> gvalue \<times> error option" where
  "loadFromFile w l config =
     (case ReadFile w (configPath l) of
        NotExist \<Rightarrow> (config, None)
      | ReadFailed c \<Rightarrow> (config, Some (ConfigReadError c))
      | Content data \<Rightarrow>
          let ext = ToLower (Ext (configPath l)) in
          if ext = ''.yaml'' \<or> ext = ''.yml''
          then (case yaml_Unmarshal w data config of
                  (config', Some c) \<Rightarrow> (config', Some (ConfigParseError ''YAML'' c))
                | (config', None) \<Rightarrow> (config', None))
          else if ext = ''.json''
          then (case json_Unmarshal w data config of
                  (config', Some c) \<Rightarrow> (config', Some (ConfigParseError ''JSON'' c))
                | (config', None) \<Rightarrow> (config', None))
          else (config, Some (UnsupportedFormatError ext)))"

text \<open>
  The steps of a load, in the order they were run: \<open>DefaultsHook\<close> stands for one call
  of \<^verbatim>\<open>SetDefaults\<close>.
\<close>

datatype phase = FilePhase | EnvPhase | InterpolationPhase | DefaultsHook

text \<open>How a load ends: it returns nil, it returns an error, or it panics.\<close>

datatype outcome = Done | Failed error | Panicked panic

text \<open>
  \<open>Load\<close> (lines 32 to 56). \<open>hook\<close> is the method \<^verbatim>\<open>SetDefaults\<close> of the target, when the
  type of the target has one; it is the caller's code, taken here to return. The
  result is the target as the load leaves it, how the load ended, and the steps run.
\<close>

definition Load ::
  "world \<Rightarrow> loader \<Rightarrow> (gvalue \<Rightarrow> gvalue) option \<Rightarrow> gvalue \<Rightarrow> gvalue \<times> outcome \<times> phase list" where
  "Load w l hook config =
     (let (c1, e1, t1) =
            (if configPath l \<noteq> []
             then (case loadFromFile w l config of (c, e) \<Rightarrow> (c, e, [FilePhase]))
             else (config, None, []))
      in case e1 of
           Some err \<Rightarrow> (c1, Failed (Wrapped ''failed to load config from file'' err), t1)
         | None \<Rightarrow>
             (case loadFromEnv w (envPrefix l) c1 of
                (c2, Some err, rd) \<Rightarrow>
                  (c2, Failed (Wrapped ''failed to load config from environment'' err),
                   t1 @ [EnvPhase])
              | (c2, None, rd) \<Rightarrow>
                  (case substituteEnvVars (environ w) c2 of
                     Inl p \<Rightarrow> (c2, Panicked p, t1 @ [EnvPhase, InterpolationPhase])
                   | Inr (c3, Some err) \<Rightarrow>
                       (c3, Failed (Wrapped ''failed to substitute environment variables'' err),
                        t1 @ [EnvPhase, InterpolationPhase])
                   | Inr (c3, None) \<Rightarrow>
                       (case hook of
                          Some SetDefaults \<Rightarrow>
                            (SetDefaults c3, Done,
                             t1 @ [EnvPhase, InterpolationPhase, DefaultsHook])
                        | None \<Rightarrow> (c3, Done, t1 @ [EnvPhase, InterpolationPhase])))))"

text \<open>The three convenience functions (lines 279 to 294).\<close>

definition LoadFromFile :: "world \<Rightarrow> string \<Rightarrow> (gvalue \<Rightarrow> gvalue) option \<Rightarrow> gvalue \<Rightarrow> gvalue \<times> outcome \<times> phase list" where
  "LoadFromFile w path hook config = Load w (NewLoader path []) hook config"

definition LoadFromEnv :: "world \<Rightarrow> string \<Rightarrow> (gvalue \<Rightarrow> gvalue) option \<Rightarrow> gvalue \<Rightarrow> gvalue \<times> outcome \<times> phase list" where
  "LoadFromEnv w pfx hook config = Load w (NewLoader [] pfx) hook config"

definition LoadWithDefaults ::
  "world \<Rightarrow> string \<Rightarrow> string \<Rightarrow> (gvalue \<Rightarrow> gvalue) option \<Rightarrow> gvalue \<Rightarrow> gvalue \<times> outcome \<times> phase list" where
  "LoadWithDefaults w path pfx hook config = Load w (NewLoader path pfx) hook config"

subsection \<open>Paths to the fields of nested structs\<close>

text \<open>
  A path is the list of the indices of the fields it goes through: \<open>[1, 0]\<close> is field 0 of
  the struct that is field 1. \<open>field_at\<close> follows a path through struct fields of any
  visibility.
\<close>

fun field_at :: "field list \<Rightarrow> nat list \<Rightarrow> field option" where
  "field_at [] p = None"
| "field_at (f # fs) [] = None"
| "field_at (f # fs) (Suc i # p) = field_at fs (i # p)"
| "field_at (f # fs) (0 # p) =
     (if p = [] then Some f
      else case fval f of VStruct inner \<Rightarrow> field_at inner p | _ \<Rightarrow> None)"

text \<open>
  The fields the overlay looks at: the ones that can be set and whose key is not the
  sentinel.
\<close>

definition visited :: "field \<Rightarrow> bool" where
  "visited f = (fvis f = Exported \<and> envKey f \<noteq> ''-'')"

text \<open>
  \<open>leaf_at pfx fs p\<close> is the field at path \<open>p\<close> with its environment key, when the path
  goes through visited struct fields only and ends at a visited field that is not a
  struct: a leaf of the overlay. The key is built as the specification words it: the
  prefix, then the override key; a nested struct extends the prefix by its own key and
  an underscore.
\<close>

fun leaf_at :: "string \<Rightarrow> field list \<Rightarrow> nat list \<Rightarrow> (string \<times> field) option" where
  "leaf_at pfx [] p = None"
| "leaf_at pfx (f # fs) [] = None"
| "leaf_at pfx (f # fs) (Suc i # p) = leaf_at pfx fs (i # p)"
| "leaf_at pfx (f # fs) (0 # p) =
     (if \<not> visited f then None
      else case fval f of
             VStruct inner \<Rightarrow> leaf_at (pfx @ envKey f @ ''_'') inner p
           | _ \<Rightarrow> if p = [] then Some (pfx @ envKey f, f) else None)"

text \<open>
  The keys of all leaves in the order of the walk, following the specification
  (section 4.2): to be compared with the keys \<open>loadStructFromEnv\<close> reads.
\<close>

fun spec_env_keys :: "string \<Rightarrow> field list \<Rightarrow> string list" where
  "spec_env_keys pfx [] = []"
| "spec_env_keys pfx (Field name tag vis val # fs) =
     (if \<not> visited (Field name tag vis val) then spec_env_keys pfx fs
      else case val of
             VStruct inner \<Rightarrow>
               spec_env_keys (pfx @ envKey (Field name tag vis val) @ ''_'') inner
                 @ spec_env_keys pfx fs
           | _ \<Rightarrow> (pfx @ envKey (Field name tag vis val)) # spec_env_keys pfx fs)"


text \<open>Two scalar values of the same Go type: the contents may differ.\<close>

fun same_scalar_type :: "gvalue \<Rightarrow> gvalue \<Rightarrow> bool" where
  "same_scalar_type (VString tn _) (VString tn' _) = (tn = tn')"
| "same_scalar_type (VInt k tn _) (VInt k' tn' _) = (k = k' \<and> tn = tn')"
| "same_scalar_type (VUint k _) (VUint k' _) = (k = k')"
| "same_scalar_type (VBool _) (VBool _) = True"
| "same_scalar_type (VFloat k _) (VFloat k' _) = (k = k')"
| "same_scalar_type _ _ = False"

text \<open>
  The leaves with their keys, in the order of the walk (\<open>spec_env_keys\<close> lists their
  keys), and the leaves the overlay cannot set: the environment has a non-empty value
  for the key, and \<open>setFieldValue\<close> rejects it.
\<close>

fun spec_leaves :: "string \<Rightarrow> field list \<Rightarrow> (string \<times> field) list" where
  "spec_leaves pfx [] = []"
| "spec_leaves pfx (Field name tag vis val # fs) =
     (if \<not> visited (Field name tag vis val) then spec_leaves pfx fs
      else case val of
             VStruct inner \<Rightarrow>
               spec_leaves (pfx @ envKey (Field name tag vis val) @ ''_'') inner
                 @ spec_leaves pfx fs
           | _ \<Rightarrow> (pfx @ envKey (Field name tag vis val), Field name tag vis val)
                   # spec_leaves pfx fs)"



text \<open>The target as phase 1 leaves it, and the error of phase 1: the first step of \<open>Load\<close>.\<close>

definition file_phase :: "world \<Rightarrow> loader \<Rightarrow> gvalue \<Rightarrow> gvalue \<times> error option" where
  "file_phase w l config = (if configPath l \<noteq> [] then loadFromFile w l config else (config, None))"

subsection \<open>A world and targets for the examples\<close>

text \<open>
  A world with the given environment and files, decoders that leave the target as it
  is, and a float parser that accepts nothing: no example has a float field.
\<close>

definition example_world :: "(string \<Rightarrow> string option) \<Rightarrow> (string \<Rightarrow> read_result) \<Rightarrow> world" where
  "example_world env files =
     \<lparr>environ = env, ReadFile = files, parse_float = (\<lambda>s. Inl ErrSyntax),
      to_float32 = (\<lambda>x. x), yaml_Unmarshal = (\<lambda>data v. (v, None)),
      json_Unmarshal = (\<lambda>data v. (v, None))\<rparr>"

definition no_files :: "string \<Rightarrow> read_result" where
  "no_files path = NotExist"

text \<open>
  \<^verbatim>\<open>struct { Server struct { Timeout time.Duration; Secret string `env:"-"` }; Tags []string }\<close>
\<close>

definition server_fields :: "int \<Rightarrow> string \<Rightarrow> field list" where
  "server_fields timeout secret =
     [Field ''Server'' [] Exported
        (VStruct [Field ''Timeout'' [] Exported (VInt KInt64 ''time.Duration'' timeout),
                  Field ''Secret'' ''-'' Exported (VString ''string'' secret)]),
      Field ''Tags'' [] Exported (VSlice [])]"

definition server_env :: "string \<Rightarrow> string option" where
  "server_env = [''APP_SERVER_TIMEOUT'' \<mapsto> ''30'', ''APP_SERVER_SECRET'' \<mapsto> ''leak'',
                 ''APP_SERVER_-'' \<mapsto> ''leak'']"

definition server_target :: "int \<Rightarrow> string \<Rightarrow> gvalue" where
  "server_target timeout secret = VPtr (Some (VStruct (server_fields timeout secret)))"

text \<open>A file system with one file, \<^verbatim>\<open>conf.TOML\<close>.\<close>

definition toml_file :: "string \<Rightarrow> read_result" where
  "toml_file path = (if path = ''conf.TOML'' then Content ''port = 1'' else NotExist)"

text \<open>\<^verbatim>\<open>struct { Name string }\<close>, and an environment whose value for it holds a reference.\<close>

definition name_target :: "string \<Rightarrow> gvalue" where
  "name_target s = VPtr (Some (VStruct [Field ''Name'' [] Exported (VString ''string'' s)]))"

definition name_env :: "string \<Rightarrow> string option" where
  "name_env = [''NAME'' \<mapsto> ''${X:-d}'']"

text \<open>
  \<^verbatim>\<open>type Label string\<close> and \<^verbatim>\<open>struct { Labels map[string]Label }\<close>, with one entry.
\<close>

definition labels_target :: gvalue where
  "labels_target =
     VPtr (Some (VStruct
       [Field ''Labels'' [] Exported
          (VMap [(VString ''string'' ''a'', VString ''config.Label'' ''x'')])]))"






text \<open>A file system with one file, \<^verbatim>\<open>locked.toml\<close>, that cannot be read.\<close>

definition locked_file :: "string \<Rightarrow> read_result" where
  "locked_file path =
     (if path = ''locked.toml'' then ReadFailed ''permission denied'' else NotExist)"

subsection \<open>What the interpolation phase is compared with\<close>




section \<open>Lemmas about the overlay\<close>

lemma fields_induct [case_names Nil Skip Struct Leaf]:
  assumes "P []"
    and "\<And>f rest. \<not> visited f \<Longrightarrow> P rest \<Longrightarrow> P (f # rest)"
    and "\<And>name tag vis inner rest. visited (Field name tag vis (VStruct inner)) \<Longrightarrow>
           P inner \<Longrightarrow> P rest \<Longrightarrow> P (Field name tag vis (VStruct inner) # rest)"
    and "\<And>f rest. visited f \<Longrightarrow> (\<forall>inner. fval f \<noteq> VStruct inner) \<Longrightarrow> P rest \<Longrightarrow> P (f # rest)"
  shows "P fs"
proof (induction fs rule: measure_induct_rule [where f = "size_list size"])
  case (less fs)
  show ?case
  proof (cases fs)
    case Nil
    then show ?thesis using assms(1) by simp
  next
    case (Cons f rest)
    have rest: "P rest" using less Cons by simp
    show ?thesis
    proof (cases "visited f")
      case False
      then show ?thesis using assms(2) rest Cons by simp
    next
      case True
      show ?thesis
      proof (cases "\<exists>inner. fval f = VStruct inner")
        case True
        then obtain inner where i: "fval f = VStruct inner" by blast
        then have f: "f = Field (fname f) (ftag f) (fvis f) (VStruct inner)"
          by (cases f) simp
        have "size_list size inner
                < size_list size (Field (fname f) (ftag f) (fvis f) (VStruct inner) # rest)"
          by simp
        then have "size_list size inner < size_list size fs"
          using Cons f by simp
        then have "P inner" using less by simp
        then show ?thesis using assms(3) rest Cons \<open>visited f\<close> f by metis
      next
        case False
        then show ?thesis using assms(4) rest Cons \<open>visited f\<close> by simp
      qed
    qed
  qed
qed

lemma load_skip:
  "\<not> visited f \<Longrightarrow> loadStructFromEnv w (f # rest) pfx =
     (case loadStructFromEnv w rest pfx of (rest', e, rd) \<Rightarrow> (f # rest', e, rd))"
  by (cases f) (auto simp: visited_def)

lemma load_struct:
  "visited (Field name tag vis (VStruct inner)) \<Longrightarrow>
   loadStructFromEnv w (Field name tag vis (VStruct inner) # rest) pfx =
     (case loadStructFromEnv w inner (pfx @ envKey (Field name tag vis (VStruct inner)) @ ''_'') of
        (inner', Some e, rd) \<Rightarrow> (Field name tag vis (VStruct inner') # rest, Some e, rd)
      | (inner', None, rd) \<Rightarrow>
          (case loadStructFromEnv w rest pfx of
             (rest', e, rd') \<Rightarrow> (Field name tag vis (VStruct inner') # rest', e, rd @ rd')))"
  by (auto simp: visited_def)

lemma load_leaf:
  "visited f \<Longrightarrow> \<forall>inner. fval f \<noteq> VStruct inner \<Longrightarrow>
   loadStructFromEnv w (f # rest) pfx =
     (if Getenv (environ w) (pfx @ envKey f) = []
      then (case loadStructFromEnv w rest pfx of
              (rest', e, rd) \<Rightarrow> (f # rest', e, (pfx @ envKey f) # rd))
      else (case setFieldValue w (fval f) (Getenv (environ w) (pfx @ envKey f)) of
              Inl c \<Rightarrow> (f # rest, Some (FieldBindError (fname f) (pfx @ envKey f) c), [pfx @ envKey f])
            | Inr val' \<Rightarrow>
                (case loadStructFromEnv w rest pfx of
                   (rest', e, rd) \<Rightarrow>
                     (Field (fname f) (ftag f) (fvis f) val' # rest', e, (pfx @ envKey f) # rd))))"
  by (cases f) (auto simp: visited_def Let_def split: gvalue.splits sum.splits prod.splits)

lemma envKey_Field [simp]: "envKey (Field name tag vis val) = (if tag = [] then ToUpper name else tag)"
  by (simp add: envKey_def)

lemma visited_Field [simp]:
  "visited (Field name tag vis val) = (vis = Exported \<and> (if tag = [] then ToUpper name else tag) \<noteq> ''-'')"
  by (simp add: visited_def)

lemma overlay_frame:
  "loadStructFromEnv w fs pfx = (fs', e, rd) \<Longrightarrow> field_at fs p = Some f \<Longrightarrow>
   \<exists>f'. field_at fs' p = Some f' \<and> fname f' = fname f \<and> ftag f' = ftag f \<and> fvis f' = fvis f
      \<and> (\<not> visited f \<longrightarrow> f' = f)"
proof (induction fs arbitrary: pfx fs' e rd p f rule: fields_induct)
  case Nil
  then show ?case by simp
next
  case (Skip g rest)
  obtain rest' e' rd' where r: "loadStructFromEnv w rest pfx = (rest', e', rd')"
    by (cases "loadStructFromEnv w rest pfx") auto
  with Skip have fs': "fs' = g # rest'" by (simp add: load_skip)
  show ?case
  proof (cases p)
    case Nil
    with Skip show ?thesis by simp
  next
    case (Cons i q)
    show ?thesis
    proof (cases i)
      case 0
      then show ?thesis using Skip.prems(2) Skip.hyps Cons fs' by (auto split: if_splits)
    next
      case (Suc j)
      then show ?thesis using Skip.IH [OF r, of "j # q" f] Skip.prems(2) Cons fs' by simp
    qed
  qed
next
  case (Struct name tag vis inner rest)
  let ?g = "Field name tag vis (VStruct inner)"
  obtain inner' ei rdi where i: "loadStructFromEnv w inner (pfx @ envKey ?g @ ''_'') = (inner', ei, rdi)"
    by (cases "loadStructFromEnv w inner (pfx @ envKey ?g @ ''_'')") auto
  obtain rest' e' rd' where r: "loadStructFromEnv w rest pfx = (rest', e', rd')"
    by (cases "loadStructFromEnv w rest pfx") auto
  have fs': "fs' = Field name tag vis (VStruct inner') # (if ei = None then rest' else rest)"
    using Struct.prems(1) Struct.hyps i r by (simp only: load_struct) (auto split: option.splits)
  show ?case
  proof (cases p)
    case Nil
    with Struct show ?thesis by simp
  next
    case (Cons i' q)
    show ?thesis
    proof (cases i')
      case 0
      show ?thesis
      proof (cases "q = []")
        case True
        then show ?thesis using Struct.prems(2) Struct.hyps Cons 0 fs' by auto
      next
        case False
        then show ?thesis using Struct.IH(1) [OF i, of q f] Struct.prems(2) Cons 0 fs' by auto
      qed
    next
      case (Suc j)
      show ?thesis
      proof (cases "ei = None")
        case True
        then show ?thesis using Struct.IH(2) [OF r, of "j # q" f] Struct.prems(2) Cons Suc fs' by simp
      next
        case False
        then show ?thesis using Struct.prems(2) Cons Suc fs' by auto
      qed
    qed
  qed
next
  case (Leaf g rest)
  obtain rest' e' rd' where r: "loadStructFromEnv w rest pfx = (rest', e', rd')"
    by (cases "loadStructFromEnv w rest pfx") auto
  have "\<exists>v r'. fs' = Field (fname g) (ftag g) (fvis g) v # r' \<and> (r' = rest' \<or> r' = rest)"
    using Leaf.prems(1) Leaf.hyps r
    by (auto simp add: load_leaf simp del: loadStructFromEnv.simps split: if_splits sum.splits)
       (metis field.collapse)+
  then obtain v r' where fs': "fs' = Field (fname g) (ftag g) (fvis g) v # r'" and r': "r' = rest' \<or> r' = rest"
    by blast
  show ?case
  proof (cases p)
    case Nil
    with Leaf show ?thesis by simp
  next
    case (Cons i' q)
    show ?thesis
    proof (cases i')
      case 0
      then show ?thesis using Leaf.prems(2) Leaf.hyps Cons fs' by (auto split: if_splits gvalue.splits)
    next
      case (Suc j)
      then show ?thesis using Leaf.IH [OF r, of "j # q" f] Leaf.prems(2) Cons fs' r' by auto
    qed
  qed
qed

lemma overlay_leaf:
  "loadStructFromEnv w fs pfx = (fs', e, rd) \<Longrightarrow> leaf_at pfx fs p = Some (k, f) \<Longrightarrow>
   \<exists>f'. leaf_at pfx fs' p = Some (k, f') \<and> fname f' = fname f \<and> ftag f' = ftag f \<and> fvis f' = fvis f
      \<and> (fval f' = fval f \<or> Getenv (environ w) k \<noteq> [] \<and> setFieldValue w (fval f) (Getenv (environ w) k) = Inr (fval f'))
      \<and> (e = None \<longrightarrow> Getenv (environ w) k \<noteq> [] \<longrightarrow> setFieldValue w (fval f) (Getenv (environ w) k) = Inr (fval f'))"
proof (induction fs arbitrary: pfx fs' e rd p rule: fields_induct)
  case Nil
  then show ?case by simp
next
  case (Skip g rest)
  obtain rest' e' rd' where r: "loadStructFromEnv w rest pfx = (rest', e', rd')"
    by (cases "loadStructFromEnv w rest pfx") auto
  with Skip have fs': "fs' = g # rest'" "e = e'" by (simp_all add: load_skip)
  show ?case
  proof (cases p)
    case Nil
    with Skip show ?thesis by simp
  next
    case (Cons i q)
    show ?thesis
    proof (cases i)
      case 0
      then show ?thesis using Skip.prems(2) Skip.hyps Cons by simp
    next
      case (Suc j)
      then show ?thesis using Skip.IH [OF r, of "j # q"] Skip.prems(2) Cons fs' by simp
    qed
  qed
next
  case (Struct name tag vis inner rest)
  let ?g = "Field name tag vis (VStruct inner)"
  obtain inner' ei rdi where i: "loadStructFromEnv w inner (pfx @ envKey ?g @ ''_'') = (inner', ei, rdi)"
    by (cases "loadStructFromEnv w inner (pfx @ envKey ?g @ ''_'')") auto
  obtain rest' e' rd' where r: "loadStructFromEnv w rest pfx = (rest', e', rd')"
    by (cases "loadStructFromEnv w rest pfx") auto
  have fs': "fs' = Field name tag vis (VStruct inner') # (if ei = None then rest' else rest)"
    and e: "e = (if ei = None then e' else ei)"
    using Struct.prems(1) Struct.hyps i r by (simp_all only: load_struct) (auto split: option.splits)
  have vg: "visited (Field name tag vis (VStruct inner'))"
    using Struct.hyps by simp
  show ?case
  proof (cases p)
    case Nil
    with Struct show ?thesis by simp
  next
    case (Cons i' q)
    show ?thesis
    proof (cases i')
      case 0
      have "leaf_at (pfx @ envKey ?g @ ''_'') inner q = Some (k, f)"
        using Struct.prems(2) Struct.hyps Cons 0 by simp
      from Struct.IH(1) [OF i this] show ?thesis
        using Cons 0 fs' e vg by (auto simp del: visited_Field)
    next
      case (Suc j)
      have l: "leaf_at pfx rest (j # q) = Some (k, f)"
        using Struct.prems(2) Cons Suc by simp
      show ?thesis
      proof (cases "ei = None")
        case True
        then show ?thesis using Struct.IH(2) [OF r l] Cons Suc fs' e by simp
      next
        case False
        then show ?thesis using l Cons Suc fs' e by auto
      qed
    qed
  qed
next
  case (Leaf g rest)
  obtain rest' e' rd' where r: "loadStructFromEnv w rest pfx = (rest', e', rd')"
    by (cases "loadStructFromEnv w rest pfx") auto
  let ?k = "pfx @ envKey g"
  let ?x = "Getenv (environ w) ?k"
  have g: "g = Field (fname g) (ftag g) (fvis g) (fval g)" by simp
  have c: "?x = [] \<and> fs' = g # rest' \<and> e = e'
      \<or> ?x \<noteq> [] \<and> (\<exists>c. setFieldValue w (fval g) ?x = Inl c \<and> fs' = g # rest \<and> e \<noteq> None)
      \<or> ?x \<noteq> [] \<and> (\<exists>v. setFieldValue w (fval g) ?x = Inr v
            \<and> fs' = Field (fname g) (ftag g) (fvis g) v # rest' \<and> e = e')"
    using Leaf.prems(1) Leaf.hyps r
    by (auto simp add: load_leaf simp del: loadStructFromEnv.simps split: if_splits sum.splits)
  show ?case
  proof (cases p)
    case Nil
    with Leaf show ?thesis by simp
  next
    case (Cons i' q)
    show ?thesis
    proof (cases i')
      case 0
      have kf: "q = [] \<and> k = ?k \<and> f = g"
        using Leaf.prems(2) Leaf.hyps Cons 0 by (auto split: if_splits gvalue.splits)
      have nv: "\<And>v. (\<forall>inner. fval g \<noteq> VStruct inner) \<Longrightarrow> setFieldValue w (fval g) ?x = Inr v \<Longrightarrow> \<forall>inner. v \<noteq> VStruct inner"
        by (cases "fval g") (auto split: sum.splits if_splits)
      show ?thesis using c
      proof (elim disjE conjE exE)
        assume "?x = []" "fs' = g # rest'" "e = e'"
        then show ?thesis using kf Cons 0 Leaf.hyps g
          by (auto simp del: visited_Field split: gvalue.splits)
      next
        fix c assume "setFieldValue w (fval g) ?x = Inl c" "fs' = g # rest" "e \<noteq> None"
        then show ?thesis using kf Cons 0 Leaf.hyps g
          by (auto simp del: visited_Field split: gvalue.splits)
      next
        fix v assume a: "?x \<noteq> []" "setFieldValue w (fval g) ?x = Inr v"
          "fs' = Field (fname g) (ftag g) (fvis g) v # rest'" "e = e'"
        have "visited (Field (fname g) (ftag g) (fvis g) v)" using Leaf.hyps(1)
          by (auto simp add: visited_def envKey_def split: if_splits)
        moreover have "envKey (Field (fname g) (ftag g) (fvis g) v) = envKey g"
          by (simp add: envKey_def)
        ultimately show ?thesis using a kf Cons 0 nv [OF Leaf.hyps(2) a(2)]
          by (auto simp del: visited_Field envKey_Field split: gvalue.splits)
      qed
    next
      case (Suc j)
      have l: "leaf_at pfx rest (j # q) = Some (k, f)"
        using Leaf.prems(2) Cons Suc by simp
      show ?thesis using c
      proof (elim disjE conjE exE)
        assume "?x = []" "fs' = g # rest'" "e = e'"
        then show ?thesis using Leaf.IH [OF r l] Cons Suc by simp
      next
        fix c assume "setFieldValue w (fval g) ?x = Inl c" "fs' = g # rest" "e \<noteq> None"
        then show ?thesis using l Cons Suc by auto
      next
        fix v assume a: "?x \<noteq> []" "setFieldValue w (fval g) ?x = Inr v"
          "fs' = Field (fname g) (ftag g) (fvis g) v # rest'" "e = e'"
        then show ?thesis using Leaf.IH [OF r l] Cons Suc by simp
      qed
    qed
  qed
qed

lemma leaf_at_shift:
  "leaf_at pfx rest p = Some x \<Longrightarrow> leaf_at pfx (g # rest) (Suc (hd p) # tl p) = Some x"
  by (cases p; cases rest) auto

lemma overlay_reads:
  "loadStructFromEnv w fs pfx = (fs', e, rd) \<Longrightarrow>
   prefix rd (spec_env_keys pfx fs) \<and> (e = None \<longrightarrow> rd = spec_env_keys pfx fs)"
proof (induction fs arbitrary: pfx fs' e rd rule: fields_induct)
  case Nil
  then show ?case by simp
next
  case (Skip g rest)
  obtain rest' e' rd' where r: "loadStructFromEnv w rest pfx = (rest', e', rd')"
    by (cases "loadStructFromEnv w rest pfx") auto
  with Skip have "e = e'" "rd = rd'" by (simp_all add: load_skip)
  then show ?case using Skip.IH [OF r] Skip.hyps by (cases g) simp
next
  case (Struct name tag vis inner rest)
  let ?g = "Field name tag vis (VStruct inner)"
  obtain inner' ei rdi where i: "loadStructFromEnv w inner (pfx @ envKey ?g @ ''_'') = (inner', ei, rdi)"
    by (cases "loadStructFromEnv w inner (pfx @ envKey ?g @ ''_'')") auto
  obtain rest' e' rd' where r: "loadStructFromEnv w rest pfx = (rest', e', rd')"
    by (cases "loadStructFromEnv w rest pfx") auto
  have e: "e = (if ei = None then e' else ei)" and rd: "rd = (if ei = None then rdi @ rd' else rdi)"
    using Struct.prems(1) Struct.hyps i r by (simp_all only: load_struct) (auto split: option.splits)
  have k: "spec_env_keys pfx (?g # rest) = spec_env_keys (pfx @ envKey ?g @ ''_'') inner @ spec_env_keys pfx rest"
    using Struct.hyps by simp
  show ?case using Struct.IH(1) [OF i] Struct.IH(2) [OF r] e rd
    unfolding k by (auto simp: prefix_def)
next
  case (Leaf g rest)
  obtain rest' e' rd' where r: "loadStructFromEnv w rest pfx = (rest', e', rd')"
    by (cases "loadStructFromEnv w rest pfx") auto
  let ?k = "pfx @ envKey g"
  have c: "rd = ?k # rd' \<and> e = e' \<or> rd = [?k] \<and> e \<noteq> None"
    using Leaf.prems(1) Leaf.hyps r
    by (auto simp add: load_leaf simp del: loadStructFromEnv.simps split: if_splits sum.splits)
  have k: "spec_env_keys pfx (g # rest) = ?k # spec_env_keys pfx rest"
    using Leaf.hyps by (cases g) (auto split: gvalue.splits)
  show ?case using Leaf.IH [OF r] c unfolding k by auto
qed

lemma leaf_at_append:
  "leaf_at (a @ b) fs p = map_option (\<lambda>(k, f). (a @ k, f)) (leaf_at b fs p)"
  by (induction b fs p rule: leaf_at.induct) (auto split: gvalue.splits)

lemma leaf_at_prefix:
  "leaf_at pfx fs p = map_option (\<lambda>(k, f). (pfx @ k, f)) (leaf_at [] fs p)"
  using leaf_at_append [of pfx "[]" fs p] by simp

lemma spec_env_keys_append:
  "spec_env_keys (a @ b) fs = map ((@) a) (spec_env_keys b fs)"
  by (induction b fs rule: spec_env_keys.induct) (auto split: gvalue.splits)

lemma spec_env_keys_prefix:
  "spec_env_keys pfx fs = map ((@) pfx) (spec_env_keys [] fs)"
  using spec_env_keys_append [of pfx "[]" fs] by simp

lemma spec_env_keys_Cons:
  "spec_env_keys pfx (f # fs) =
     (if \<not> visited f then spec_env_keys pfx fs
      else case fval f of
             VStruct inner \<Rightarrow> spec_env_keys (pfx @ envKey f @ ''_'') inner @ spec_env_keys pfx fs
           | _ \<Rightarrow> (pfx @ envKey f) # spec_env_keys pfx fs)"
  by (cases f) (auto simp del: visited_Field envKey_Field split: gvalue.splits)

lemma leaf_key_in_spec:
  "leaf_at pfx fs p = Some (k, f) \<Longrightarrow> k \<in> set (spec_env_keys pfx fs)"
proof (induction pfx fs p rule: leaf_at.induct)
  case (3 pfx g fs i p)
  then show ?case by (auto simp add: spec_env_keys_Cons simp del: spec_env_keys.simps split: gvalue.splits)
next
  case (4 pfx g fs p)
  then show ?case
    by (auto simp add: spec_env_keys_Cons simp del: spec_env_keys.simps split: gvalue.splits if_splits)
qed simp_all

lemma spec_key_is_leaf:
  "k \<in> set (spec_env_keys pfx fs) \<Longrightarrow> \<exists>p f. leaf_at pfx fs p = Some (k, f)"
proof (induction fs arbitrary: pfx rule: fields_induct)
  case Nil
  then show ?case by simp
next
  case (Skip g rest)
  then have "k \<in> set (spec_env_keys pfx rest)" by (simp add: spec_env_keys_Cons del: spec_env_keys.simps)
  from Skip.IH [OF this] obtain p f where "leaf_at pfx rest p = Some (k, f)" by blast
  from leaf_at_shift [OF this] show ?case by blast
next
  case (Struct name tag vis inner rest)
  let ?g = "Field name tag vis (VStruct inner)"
  from Struct.prems Struct.hyps
  have "k \<in> set (spec_env_keys (pfx @ envKey ?g @ ''_'') inner) \<or> k \<in> set (spec_env_keys pfx rest)"
    by auto
  then show ?case
  proof
    assume "k \<in> set (spec_env_keys (pfx @ envKey ?g @ ''_'') inner)"
    from Struct.IH(1) [OF this] obtain q f where "leaf_at (pfx @ envKey ?g @ ''_'') inner q = Some (k, f)"
      by blast
    then have "leaf_at pfx (?g # rest) (0 # q) = Some (k, f)" using Struct.hyps by simp
    then show ?thesis by blast
  next
    assume "k \<in> set (spec_env_keys pfx rest)"
    from Struct.IH(2) [OF this] obtain p f where "leaf_at pfx rest p = Some (k, f)" by blast
    from leaf_at_shift [OF this] show ?thesis by blast
  qed
next
  case (Leaf g rest)
  from Leaf.prems Leaf.hyps
  have "k = pfx @ envKey g \<or> k \<in> set (spec_env_keys pfx rest)"
    by (auto simp add: spec_env_keys_Cons simp del: spec_env_keys.simps split: gvalue.splits)
  then show ?case
  proof
    assume "k = pfx @ envKey g"
    then have "leaf_at pfx (g # rest) [0] = Some (k, g)"
      using Leaf.hyps by (auto split: gvalue.splits)
    then show ?thesis by blast
  next
    assume "k \<in> set (spec_env_keys pfx rest)"
    from Leaf.IH [OF this] obtain p f where "leaf_at pfx rest p = Some (k, f)" by blast
    from leaf_at_shift [OF this] show ?thesis by blast
  qed
qed

lemma server_timeout_reads:
  "snd (snd (loadStructFromEnv w
       [Field ''Server'' [] Exported (VStruct [Field ''Timeout'' [] Exported (VInt k tn i)])] pfx))
   = [pfx @ ''SERVER_TIMEOUT'']"
  by (simp add: Let_def ToUpper_def upper_byte_def is_lower_def byte_def char_of_def
        split: sum.splits prod.splits)

lemma unvisited_no_leaf:
  "field_at fs p = Some f \<Longrightarrow> \<not> visited f \<Longrightarrow> leaf_at pfx fs (p @ q) = None"
proof (induction fs p arbitrary: pfx rule: field_at.induct)
  case (4 g fs p)
  then show ?case by (auto split: gvalue.splits if_splits)
qed simp_all

section \<open>Lemmas about the conversions and the whole load\<close>







lemma setFieldValue_same_type:
  "same_scalar_type a b \<Longrightarrow> setFieldValue w a s = setFieldValue w b s"
  by (cases a; cases b) simp_all

lemma Load_file_failure:
  "file_phase w l config = (c1, Some err) \<Longrightarrow>
   \<exists>tr. Load w l hook config = (c1, Failed (Wrapped ''failed to load config from file'' err), tr)
        \<and> EnvPhase \<notin> set tr \<and> InterpolationPhase \<notin> set tr \<and> DefaultsHook \<notin> set tr"
  by (auto simp: Load_def file_phase_def split: if_splits prod.splits)

lemma Load_env_failure:
  "file_phase w l config = (c1, None) \<Longrightarrow> loadFromEnv w (envPrefix l) c1 = (c2, Some err, rd) \<Longrightarrow>
   \<exists>tr. Load w l hook config = (c2, Failed (Wrapped ''failed to load config from environment'' err), tr)
        \<and> InterpolationPhase \<notin> set tr \<and> DefaultsHook \<notin> set tr"
  by (auto simp: Load_def file_phase_def split: if_splits prod.splits)

lemma loadFromEnv_ok:
  "loadFromEnv w pfx c1 = (c2, None, rd) \<Longrightarrow>
   \<exists>fs fs'. c1 = VPtr (Some (VStruct fs)) \<and> c2 = VPtr (Some (VStruct fs'))
        \<and> loadStructFromEnv w fs pfx = (fs', None, rd)"
  by (induction w pfx c1 rule: loadFromEnv.induct) (auto split: prod.splits)

lemma substituteEnvVars_ptr:
  "substituteEnvVars env (VPtr x) = Inr (c3, Some err) \<Longrightarrow> False"
  by (cases x) (auto split: sum.splits)

lemma Load_after_env:
  assumes "file_phase w l config = (c1, None)" and "loadFromEnv w (envPrefix l) c1 = (c2, None, rd)"
  shows "(\<exists>p. substituteEnvVars (environ w) c2 = Inl p
            \<and> Load w l hook config
                = (c2, Panicked p, (if configPath l \<noteq> [] then [FilePhase] else []) @ [EnvPhase, InterpolationPhase]))
       \<or> (\<exists>c3. substituteEnvVars (environ w) c2 = Inr (c3, None)
            \<and> Load w l hook config
                = ((case hook of Some SetDefaults \<Rightarrow> SetDefaults c3 | None \<Rightarrow> c3), Done,
                   (if configPath l \<noteq> [] then [FilePhase] else []) @ [EnvPhase, InterpolationPhase]
                     @ (case hook of Some SetDefaults \<Rightarrow> [DefaultsHook] | None \<Rightarrow> [])))"
proof -
  from loadFromEnv_ok [OF assms(2)] obtain fs' where c2: "c2 = VPtr (Some (VStruct fs'))" by blast
  show ?thesis
  proof (cases "substituteEnvVars (environ w) c2")
    case (Inl p)
    then show ?thesis using assms
      by (auto simp: Load_def file_phase_def split: if_splits prod.splits)
  next
    case (Inr x)
    obtain c3 e3 where x: "x = (c3, e3)" by (cases x)
    have "e3 = None"
    proof (cases e3)
      case (Some a)
      then have "substituteEnvVars (environ w) (VPtr (Some (VStruct fs'))) = Inr (c3, Some a)"
        using Inr x c2 by simp
      then show ?thesis by (rule substituteEnvVars_ptr [THEN FalseE])
    qed simp
    then show ?thesis using assms Inr x
      by (auto simp: Load_def file_phase_def split: if_splits prod.splits option.splits)
  qed
qed

lemma Load_no_file:
  assumes "file_phase w l config = (config, None)"
  shows "fst (Load w l hook config) = fst (Load w (l\<lparr>configPath := []\<rparr>) hook config)
       \<and> fst (snd (Load w l hook config)) = fst (snd (Load w (l\<lparr>configPath := []\<rparr>) hook config))"
proof (cases "configPath l = []")
  case True
  then have "l\<lparr>configPath := []\<rparr> = l" by simp
  then show ?thesis by simp
next
  case False
  then have lf: "loadFromFile w l config = (config, None)" using assms by (simp add: file_phase_def)
  obtain c2 e2 rd where le: "loadFromEnv w (envPrefix l) config = (c2, e2, rd)"
    by (cases "loadFromEnv w (envPrefix l) config") auto
  show ?thesis
  proof (cases e2)
    case None
    show ?thesis
    proof (cases "substituteEnvVars (environ w) c2")
      case (Inl p)
      then show ?thesis using False lf le None by (simp add: Load_def)
    next
      case (Inr x)
      then show ?thesis using False lf le None
        by (cases x) (simp add: Load_def split: option.splits)
    qed
  next
    case (Some err)
    then show ?thesis using False lf le by (simp add: Load_def)
  qed
qed

text \<open>The four ways a load can run.\<close>

lemma Load_phases:
  "(\<exists>c1 err. file_phase w l config = (c1, Some err)
       \<and> Load w l hook config = (c1, Failed (Wrapped ''failed to load config from file'' err), [FilePhase]))
   \<or> (\<exists>c1 c2 err rd. file_phase w l config = (c1, None)
       \<and> loadFromEnv w (envPrefix l) c1 = (c2, Some err, rd)
       \<and> Load w l hook config
           = (c2, Failed (Wrapped ''failed to load config from environment'' err),
              (if configPath l \<noteq> [] then [FilePhase] else []) @ [EnvPhase]))
   \<or> (\<exists>c1 c2 rd p. file_phase w l config = (c1, None)
       \<and> loadFromEnv w (envPrefix l) c1 = (c2, None, rd)
       \<and> substituteEnvVars (environ w) c2 = Inl p
       \<and> Load w l hook config
           = (c2, Panicked p,
              (if configPath l \<noteq> [] then [FilePhase] else []) @ [EnvPhase, InterpolationPhase]))
   \<or> (\<exists>c1 c2 rd c3. file_phase w l config = (c1, None)
       \<and> loadFromEnv w (envPrefix l) c1 = (c2, None, rd)
       \<and> substituteEnvVars (environ w) c2 = Inr (c3, None)
       \<and> Load w l hook config
           = ((case hook of Some SetDefaults \<Rightarrow> SetDefaults c3 | None \<Rightarrow> c3), Done,
              (if configPath l \<noteq> [] then [FilePhase] else []) @ [EnvPhase, InterpolationPhase]
                @ (case hook of Some SetDefaults \<Rightarrow> [DefaultsHook] | None \<Rightarrow> [])))"
proof -
  obtain c1 e1 where f: "file_phase w l config = (c1, e1)" by (cases "file_phase w l config")
  show ?thesis
  proof (cases e1)
    case (Some err)
    then have "Load w l hook config = (c1, Failed (Wrapped ''failed to load config from file'' err), [FilePhase])"
      using f by (auto simp: Load_def file_phase_def split: if_splits prod.splits)
    then show ?thesis using f Some by blast
  next
    case None
    obtain c2 e2 rd where e: "loadFromEnv w (envPrefix l) c1 = (c2, e2, rd)"
      by (cases "loadFromEnv w (envPrefix l) c1") auto
    show ?thesis
    proof (cases e2)
      case (Some err)
      then have "Load w l hook config
           = (c2, Failed (Wrapped ''failed to load config from environment'' err),
              (if configPath l \<noteq> [] then [FilePhase] else []) @ [EnvPhase])"
        using f None e by (auto simp: Load_def file_phase_def split: if_splits prod.splits)
      then show ?thesis using f None e Some by blast
    next
      case n2: None
      from Load_after_env [OF f [unfolded None] e [unfolded n2], of hook]
      show ?thesis using f None e n2 by blast
    qed
  qed
qed

section \<open>The first rejected leaf\<close>


lemma spec_env_keys_leaves: "spec_env_keys pfx fs = map fst (spec_leaves pfx fs)"
  by (induction pfx fs rule: spec_env_keys.induct) (auto split: gvalue.splits)








section \<open>Lemmas about the interpolation phase\<close>



section \<open>Lemmas about the expansion of a string\<close>

lemma match_here_not_dollar: "s \<noteq> [] \<Longrightarrow> hd s \<noteq> CHR ''$'' \<Longrightarrow> match_here s = None"
  by (cases s rule: match_here.cases) auto

lemma replace_no_dollar: "CHR ''$'' \<notin> set s \<Longrightarrow> ReplaceAllStringFunc repl s = s"
proof (induction s)
  case Nil
  then show ?case by simp
next
  case (Cons c cs)
  then have "match_here (c # cs) = None" by (intro match_here_not_dollar) auto
  with Cons show ?case by simp
qed

lemma replace_skip:
  "CHR ''$'' \<notin> set pre \<Longrightarrow> ReplaceAllStringFunc repl (pre @ s) = pre @ ReplaceAllStringFunc repl s"
proof (induction pre)
  case Nil
  then show ?case by simp
next
  case (Cons c cs)
  then have "match_here (c # cs @ s) = None" by (intro match_here_not_dollar) auto
  with Cons show ?case by simp
qed

lemma replace_at_match:
  "match_here s = Some n \<Longrightarrow>
   ReplaceAllStringFunc repl s = repl (take n s) @ ReplaceAllStringFunc repl (drop n s)"
proof (cases s)
  case Nil
  then show "match_here s = Some n \<Longrightarrow> ?thesis" by simp
next
  case (Cons c cs)
  assume m: "match_here s = Some n"
  then have "0 < n" using Cons by (cases cs) (auto simp: Let_def split: if_splits)
  then have "drop (n - 1) cs = drop n (c # cs)" by (cases n) auto
  then show ?thesis using m Cons by simp
qed

lemma replace_match_exact:
  assumes "match_here (m @ post) = Some (length m)"
  shows "ReplaceAllStringFunc repl (m @ post) = repl m @ ReplaceAllStringFunc repl post"
  using replace_at_match [OF assms, of repl] by (simp del: ReplaceAllStringFunc.simps)

lemma takeWhile_body:
  "CHR ''}'' \<notin> set body \<Longrightarrow> takeWhile (\<lambda>c. c \<noteq> CHR ''}'') (body @ CHR ''}'' # post) = body"
  by (induction body) auto

lemma match_braces:
  "body \<noteq> [] \<Longrightarrow> CHR ''}'' \<notin> set body \<Longrightarrow>
   match_here ((''${'' @ body @ ''}'') @ post) = Some (length (''${'' @ body @ ''}''))"
  by (simp add: takeWhile_body Let_def)

lemma name_start_not_brace: "is_name_start c \<Longrightarrow> c \<noteq> CHR ''{''"
  by (auto simp: is_name_start_def is_upper_def byte_def)

lemma takeWhile_name:
  "list_all is_name_char nm \<Longrightarrow> post = [] \<or> \<not> is_name_char (hd post) \<Longrightarrow>
   takeWhile is_name_char (nm @ post) = nm"
  by (induction nm) (auto simp: takeWhile_eq_Nil_iff neq_Nil_conv)

lemma match_bare:
  "is_name_start c \<Longrightarrow> list_all is_name_char nm \<Longrightarrow> post = [] \<or> \<not> is_name_char (hd post) \<Longrightarrow>
   match_here ((CHR ''$'' # c # nm) @ post) = Some (length (CHR ''$'' # c # nm))"
  using name_start_not_brace [of c] by (simp add: takeWhile_name)

lemma cut_found:
  "cut '':-'' name = None \<Longrightarrow> cut '':-'' (name @ '':-'' @ dflt) = Some (name, dflt)"
proof (induction name)
  case Nil
  then show ?case by simp
next
  case (Cons c cs)
  then have np: "\<not> prefix '':-'' (c # cs)" and r: "cut '':-'' cs = None"
    by (auto split: if_splits)
  have "\<not> prefix '':-'' (c # cs @ '':-'' @ dflt)"
    using np by (cases cs) auto
  with Cons.IH [OF r] show ?case by simp
qed

lemma expand_match_braces:
  "cut '':-'' name = None \<Longrightarrow>
   expand_match env (''${'' @ name @ ''}'')
     = (if Getenv env name \<noteq> [] then Getenv env name else ''${'' @ name @ ''}'')"
  by (simp add: expand_match_def)

lemma expand_match_default:
  "cut '':-'' name = None \<Longrightarrow>
   expand_match env (''${'' @ name @ '':-'' @ dflt @ ''}'')
     = (if Getenv env name \<noteq> [] then Getenv env name
        else if dflt \<noteq> [] then dflt
        else ''${'' @ name @ '':-}'')"
  using cut_found [of name dflt] by (simp add: expand_match_def)

lemma expand_match_bare:
  "c \<noteq> CHR ''{'' \<Longrightarrow>
   expand_match env (CHR ''$'' # c # nm)
     = (if Getenv env (c # nm) \<noteq> [] then Getenv env (c # nm) else CHR ''$'' # c # nm)"
  by (simp add: expand_match_def)

text \<open>
  The first reference of a string, in each of its three forms: what stands before it
  is kept, the reference is resolved, and only what follows it is scanned further.
\<close>

lemma expandEnvVar_first_reference:
  assumes "CHR ''$'' \<notin> set pre"
  shows "name \<noteq> [] \<Longrightarrow> CHR ''}'' \<notin> set name \<Longrightarrow> cut '':-'' name = None \<Longrightarrow>
         expandEnvVar env (pre @ ''${'' @ name @ ''}'' @ post)
           = pre @ (if Getenv env name \<noteq> [] then Getenv env name else ''${'' @ name @ ''}'')
               @ expandEnvVar env post"
    and "CHR ''}'' \<notin> set name \<Longrightarrow> CHR ''}'' \<notin> set dflt \<Longrightarrow> cut '':-'' name = None \<Longrightarrow>
         expandEnvVar env (pre @ ''${'' @ name @ '':-'' @ dflt @ ''}'' @ post)
           = pre @ (if Getenv env name \<noteq> [] then Getenv env name
                    else if dflt \<noteq> [] then dflt
                    else ''${'' @ name @ '':-}'')
               @ expandEnvVar env post"
    and "is_name_start c \<Longrightarrow> list_all is_name_char nm \<Longrightarrow> post = [] \<or> \<not> is_name_char (hd post) \<Longrightarrow>
         expandEnvVar env (pre @ CHR ''$'' # c # nm @ post)
           = pre @ (if Getenv env (c # nm) \<noteq> [] then Getenv env (c # nm) else CHR ''$'' # c # nm)
               @ expandEnvVar env post"
proof -
  show "expandEnvVar env (pre @ ''${'' @ name @ ''}'' @ post)
           = pre @ (if Getenv env name \<noteq> [] then Getenv env name else ''${'' @ name @ ''}'')
               @ expandEnvVar env post"
    if n: "name \<noteq> []" "CHR ''}'' \<notin> set name" "cut '':-'' name = None"
  proof -
    have "ReplaceAllStringFunc (expand_match env) ((''${'' @ name @ ''}'') @ post)
            = expand_match env (''${'' @ name @ ''}'') @ ReplaceAllStringFunc (expand_match env) post"
      by (rule replace_match_exact [OF match_braces [OF n(1,2)]])
    then show ?thesis
      using replace_skip [OF assms, of "expand_match env" "''${'' @ name @ ''}'' @ post"]
        expand_match_braces [OF n(3), of env]
      by (simp add: expandEnvVar_def del: ReplaceAllStringFunc.simps)
  qed
  show "expandEnvVar env (pre @ ''${'' @ name @ '':-'' @ dflt @ ''}'' @ post)
           = pre @ (if Getenv env name \<noteq> [] then Getenv env name
                    else if dflt \<noteq> [] then dflt
                    else ''${'' @ name @ '':-}'')
               @ expandEnvVar env post"
    if n: "CHR ''}'' \<notin> set name" "CHR ''}'' \<notin> set dflt" "cut '':-'' name = None"
  proof -
    have b: "name @ '':-'' @ dflt \<noteq> []" "CHR ''}'' \<notin> set (name @ '':-'' @ dflt)"
      using n by auto
    have "ReplaceAllStringFunc (expand_match env) ((''${'' @ (name @ '':-'' @ dflt) @ ''}'') @ post)
            = expand_match env (''${'' @ (name @ '':-'' @ dflt) @ ''}'')
                @ ReplaceAllStringFunc (expand_match env) post"
      by (rule replace_match_exact [OF match_braces [OF b]])
    then show ?thesis
      using replace_skip [OF assms, of "expand_match env" "''${'' @ name @ '':-'' @ dflt @ ''}'' @ post"]
        expand_match_default [OF n(3), of env dflt]
      by (simp add: expandEnvVar_def del: ReplaceAllStringFunc.simps)
  qed
  show "expandEnvVar env (pre @ CHR ''$'' # c # nm @ post)
           = pre @ (if Getenv env (c # nm) \<noteq> [] then Getenv env (c # nm) else CHR ''$'' # c # nm)
               @ expandEnvVar env post"
    if n: "is_name_start c" "list_all is_name_char nm" "post = [] \<or> \<not> is_name_char (hd post)"
  proof -
    have "ReplaceAllStringFunc (expand_match env) ((CHR ''$'' # c # nm) @ post)
            = expand_match env (CHR ''$'' # c # nm) @ ReplaceAllStringFunc (expand_match env) post"
      by (rule replace_match_exact [OF match_bare [OF n]])
    then show ?thesis
      using replace_skip [OF assms, of "expand_match env" "CHR ''$'' # c # nm @ post"]
        expand_match_bare [OF name_start_not_brace [OF n(1)], of env nm]
      by (simp add: expandEnvVar_def del: ReplaceAllStringFunc.simps)
  qed
qed

lemma expandEnvVar_no_dollar: "CHR ''$'' \<notin> set s \<Longrightarrow> expandEnvVar env s = s"
  by (simp add: expandEnvVar_def replace_no_dollar)

text \<open>Once phases 1 and 2 have succeeded, \<open>Load\<close> returns no error.\<close>

lemma Load_interpolation_returns_no_error:
  assumes "file_phase w l config = (c1, None)" and "loadFromEnv w (envPrefix l) c1 = (c2, None, rd)"
  shows "\<forall>c err tr. Load w l hook config \<noteq> (c, Failed err, tr)"
  using Load_after_env [OF assms, of hook] by auto

section \<open>The claims\<close>

text \<open>
  Claim C1, as the specification states it: after a successful \<open>Load\<close>, a leaf field
  whose key has a non-empty value in the environment equals that value converted to
  the kind of the field. The interpolation phase runs after the overlay and rewrites
  the strings the overlay has set: with \<^verbatim>\<open>NAME=${X:-d}\<close> in the environment and \<^verbatim>\<open>X\<close> unset,
  the field \<^verbatim>\<open>Name\<close> is \<^verbatim>\<open>d\<close> after the load, not the value of \<^verbatim>\<open>NAME\<close>.
\<close>

theorem C1_counterexample:
  "Load (example_world name_env no_files) (NewLoader [] []) None (name_target ''old'')
     = (name_target ''d'', Done, [EnvPhase, InterpolationPhase])
   \<and> leaf_at [] [Field ''Name'' [] Exported (VString ''string'' ''old'')] [0]
       = Some (''NAME'', Field ''Name'' [] Exported (VString ''string'' ''old''))
   \<and> Getenv (environ (example_world name_env no_files)) ''NAME'' = ''${X:-d}''
   \<and> setFieldValue (example_world name_env no_files) (VString ''string'' ''old'') ''${X:-d}''
       = Inr (VString ''string'' ''${X:-d}'')
   \<and> name_target ''d'' \<noteq> name_target ''${X:-d}''"
  by code_simp

text \<open>
  Claim C1, amended: it holds of the target as the overlay phase leaves it. In a
  successful \<open>Load\<close>, phase 1 leaves a pointer to a struct with fields \<open>fs\<close>, the overlay
  succeeds on it and leaves fields \<open>fs'\<close>, and for every leaf of \<open>fs\<close> (a settable field
  that is not a struct, reached through settable struct fields, none with the sentinel
  key), with key \<open>k\<close>: when the environment has a non-empty value for \<open>k\<close>, the field in
  \<open>fs'\<close> is what \<open>setFieldValue\<close> makes of that value, whatever the field held before
  (any value of the same type gives the same result); when the value is unset or empty,
  the field is as phase 1 left it. The result of \<open>Load\<close> is then \<open>fs'\<close> after interpolation
  and after \<^verbatim>\<open>SetDefaults\<close>, which may both change the field.
\<close>

theorem C1_overlay_overrides:
  assumes "Load w l hook config = (c, Done, tr)"
  shows "\<exists>fs fs' rd c3.
           file_phase w l config = (VPtr (Some (VStruct fs)), None)
         \<and> loadFromEnv w (envPrefix l) (VPtr (Some (VStruct fs)))
             = (VPtr (Some (VStruct fs')), None, rd)
         \<and> (\<forall>p k f. leaf_at (envPrefix l) fs p = Some (k, f) \<longrightarrow>
               (\<exists>f'. leaf_at (envPrefix l) fs' p = Some (k, f') \<and> fname f' = fname f
                  \<and> (if Getenv (environ w) k = [] then fval f' = fval f
                      else setFieldValue w (fval f) (Getenv (environ w) k) = Inr (fval f')
                         \<and> (\<forall>old. same_scalar_type old (fval f) \<longrightarrow>
                               setFieldValue w old (Getenv (environ w) k) = Inr (fval f')))))
         \<and> substituteEnvVars (environ w) (VPtr (Some (VStruct fs'))) = Inr (c3, None)
         \<and> c = (case hook of Some SetDefaults \<Rightarrow> SetDefaults c3 | None \<Rightarrow> c3)"
proof -
  from Load_phases [of w l config hook] assms
  obtain c1 c2 rd c3 where f: "file_phase w l config = (c1, None)"
    and e: "loadFromEnv w (envPrefix l) c1 = (c2, None, rd)"
    and s: "substituteEnvVars (environ w) c2 = Inr (c3, None)"
    and c: "c = (case hook of Some SetDefaults \<Rightarrow> SetDefaults c3 | None \<Rightarrow> c3)"
    by auto
  from loadFromEnv_ok [OF e] obtain fs fs' where c1: "c1 = VPtr (Some (VStruct fs))"
    and c2: "c2 = VPtr (Some (VStruct fs'))"
    and o: "loadStructFromEnv w fs (envPrefix l) = (fs', None, rd)" by blast
  have "\<exists>f'. leaf_at (envPrefix l) fs' p = Some (k, f') \<and> fname f' = fname f
          \<and> (if Getenv (environ w) k = [] then fval f' = fval f
              else setFieldValue w (fval f) (Getenv (environ w) k) = Inr (fval f')
                 \<and> (\<forall>old. same_scalar_type old (fval f) \<longrightarrow>
                       setFieldValue w old (Getenv (environ w) k) = Inr (fval f')))"
    if l: "leaf_at (envPrefix l) fs p = Some (k, f)" for p k f
  proof -
    from overlay_leaf [OF o l] obtain f' where f': "leaf_at (envPrefix l) fs' p = Some (k, f')"
      "fname f' = fname f"
      "fval f' = fval f \<or> Getenv (environ w) k \<noteq> []
         \<and> setFieldValue w (fval f) (Getenv (environ w) k) = Inr (fval f')"
      "Getenv (environ w) k \<noteq> [] \<longrightarrow> setFieldValue w (fval f) (Getenv (environ w) k) = Inr (fval f')"
      by auto
    have "\<forall>old. same_scalar_type old (fval f) \<longrightarrow>
            setFieldValue w old (Getenv (environ w) k) = setFieldValue w (fval f) (Getenv (environ w) k)"
      using setFieldValue_same_type by blast
    with f' show ?thesis by (cases "Getenv (environ w) k = []") auto
  qed
  with f e s c c1 c2 show ?thesis by blast
qed

theorem C1_overlay_overrides_witness:
  "Load (example_world server_env no_files) (NewLoader ''missing.yaml'' ''APP_'') None
         (server_target 0 ''keep'')
     = (server_target 30 ''keep'', Done, [FilePhase, EnvPhase, InterpolationPhase])
   \<and> leaf_at ''APP_'' (server_fields 0 ''keep'') [0, 0]
       = Some (''APP_SERVER_TIMEOUT'', Field ''Timeout'' [] Exported (VInt KInt64 ''time.Duration'' 0))
   \<and> leaf_at ''APP_'' (server_fields 30 ''keep'') [0, 0]
       = Some (''APP_SERVER_TIMEOUT'', Field ''Timeout'' [] Exported (VInt KInt64 ''time.Duration'' 30))
   \<and> setFieldValue (example_world server_env no_files) (VInt KInt64 ''time.Duration'' 0) ''30''
       = Inr (VInt KInt64 ''time.Duration'' 30)"
proof -
  have h: "Load (example_world server_env no_files) (NewLoader ''missing.yaml'' ''APP_'') None
         (server_target 0 ''keep'')
     = (server_target 30 ''keep'', Done, [FilePhase, EnvPhase, InterpolationPhase])"
    by code_simp
  have "\<exists>fs. file_phase (example_world server_env no_files) (NewLoader ''missing.yaml'' ''APP_'')
               (server_target 0 ''keep'') = (VPtr (Some (VStruct fs)), None)"
    using C1_overlay_overrides [OF h] by blast
  moreover have "leaf_at ''APP_'' (server_fields 0 ''keep'') [0, 0]
       = Some (''APP_SERVER_TIMEOUT'', Field ''Timeout'' [] Exported (VInt KInt64 ''time.Duration'' 0))"
    by code_simp
  moreover have "leaf_at ''APP_'' (server_fields 30 ''keep'') [0, 0]
       = Some (''APP_SERVER_TIMEOUT'', Field ''Timeout'' [] Exported (VInt KInt64 ''time.Duration'' 30))"
    by code_simp
  moreover have "setFieldValue (example_world server_env no_files) (VInt KInt64 ''time.Duration'' 0) ''30''
       = Inr (VInt KInt64 ''time.Duration'' 30)"
    by code_simp
  ultimately show ?thesis using h by simp
qed

text \<open>
  Claim C2. The key a field is read from is the accumulated prefix followed by its
  override key (the \<^verbatim>\<open>env\<close> tag, or the field name in upper case), and a nested struct
  extends the prefix by its own full key and an underscore: the keys
  \<open>loadStructFromEnv\<close> passes to \<^verbatim>\<open>os.Getenv\<close> are the keys the specification derives
  (\<open>spec_env_keys\<close>), in the same order, all of them when the call succeeds and the first
  ones when it fails; each is the key of a leaf (\<open>leaf_at\<close>). A field \<^verbatim>\<open>Timeout\<close> of a
  struct field \<^verbatim>\<open>Server\<close> is read from the prefix followed by \<^verbatim>\<open>SERVER_TIMEOUT\<close>, and another
  prefix changes the leading segment of every key and nothing else.
\<close>

theorem C2_env_key_derivation:
  assumes "loadStructFromEnv w fs pfx = (fs', e, rd)"
  shows "prefix rd (spec_env_keys pfx fs)
       \<and> (e = None \<longrightarrow> rd = spec_env_keys pfx fs)
       \<and> (\<forall>k. k \<in> set (spec_env_keys pfx fs) \<longleftrightarrow> (\<exists>p f. leaf_at pfx fs p = Some (k, f)))
       \<and> (\<forall>p. leaf_at pfx fs p = map_option (\<lambda>(k, f). (pfx @ k, f)) (leaf_at [] fs p))
       \<and> spec_env_keys pfx fs = map ((@) pfx) (spec_env_keys [] fs)
       \<and> (\<forall>k tn i. snd (snd (loadStructFromEnv w
              [Field ''Server'' [] Exported (VStruct [Field ''Timeout'' [] Exported (VInt k tn i)])]
              pfx)) = [pfx @ ''SERVER_TIMEOUT''])"
proof -
  have a: "prefix rd (spec_env_keys pfx fs)" and b: "e = None \<longrightarrow> rd = spec_env_keys pfx fs"
    using overlay_reads [OF assms] by simp_all
  have c: "\<forall>k. k \<in> set (spec_env_keys pfx fs) \<longleftrightarrow> (\<exists>p f. leaf_at pfx fs p = Some (k, f))"
    using leaf_key_in_spec spec_key_is_leaf by blast
  have d: "\<forall>p. leaf_at pfx fs p = map_option (\<lambda>(k, f). (pfx @ k, f)) (leaf_at [] fs p)"
    using leaf_at_prefix by blast
  have e: "spec_env_keys pfx fs = map ((@) pfx) (spec_env_keys [] fs)"
    by (rule spec_env_keys_prefix)
  have f: "\<forall>k tn i. snd (snd (loadStructFromEnv w
              [Field ''Server'' [] Exported (VStruct [Field ''Timeout'' [] Exported (VInt k tn i)])]
              pfx)) = [pfx @ ''SERVER_TIMEOUT'']"
    by (intro allI) (rule server_timeout_reads)
  show ?thesis by (intro conjI) (fact a b c d e f)+
qed

theorem C2_env_key_derivation_witness:
  "loadStructFromEnv (example_world server_env no_files) (server_fields 0 ''keep'') ''APP_''
     = (server_fields 30 ''keep'', None, [''APP_SERVER_TIMEOUT'', ''APP_TAGS''])
   \<and> spec_env_keys ''APP_'' (server_fields 0 ''keep'') = [''APP_SERVER_TIMEOUT'', ''APP_TAGS'']
   \<and> spec_env_keys [] (server_fields 0 ''keep'') = [''SERVER_TIMEOUT'', ''TAGS'']"
proof -
  have h: "loadStructFromEnv (example_world server_env no_files) (server_fields 0 ''keep'') ''APP_''
     = (server_fields 30 ''keep'', None, [''APP_SERVER_TIMEOUT'', ''APP_TAGS''])"
    by code_simp
  have "spec_env_keys [] (server_fields 0 ''keep'') = [''SERVER_TIMEOUT'', ''TAGS'']"
    by code_simp
  moreover have "[''APP_SERVER_TIMEOUT'', ''APP_TAGS''] = spec_env_keys ''APP_'' (server_fields 0 ''keep'')"
    using C2_env_key_derivation [OF h, THEN conjunct2, THEN conjunct1] by simp
  ultimately show ?thesis using h by simp
qed




text \<open>
  Claim C4. A reference with an empty default, \<^verbatim>\<open>${NAME:-}\<close>, has a default clause; when
  \<^verbatim>\<open>NAME\<close> is unset the claim replaces the reference by the default, the empty string.
  \<open>expandEnvVar\<close> tells a default from no default by \<^verbatim>\<open>defaultValue != ""\<close> (line 269), so
  it leaves the reference in the string. With a default that is not empty, and with
  a variable that is set, it does what the claim says.
\<close>

theorem C4_empty_default_is_kept:
  "expandEnvVar Map.empty ''${MISSING:-}'' = ''${MISSING:-}''
   \<and> expandEnvVar Map.empty ''a${MISSING:-}b'' = ''a${MISSING:-}b''
   \<and> expandEnvVar Map.empty ''${MISSING:-fallback}'' = ''fallback''
   \<and> expandEnvVar [''MISSING'' \<mapsto> ''x''] ''${MISSING:-fallback}'' = ''x''
   \<and> expandEnvVar Map.empty ''$MISSING'' = ''$MISSING''"
  by code_simp



text \<open>
  Claim C6. When the path is empty, or names a file that does not exist, phase 1
  succeeds and leaves the target as it was: \<open>loadFromFile\<close> returns the target and no
  error, \<open>Load\<close> never fails with the error of the file phase, and the target and the
  outcome of \<open>Load\<close> are those of a load with no path at all.
\<close>

theorem C6_missing_file_is_noop:
  assumes "configPath l = [] \<or> ReadFile w (configPath l) = NotExist"
  shows "file_phase w l config = (config, None)
       \<and> (configPath l \<noteq> [] \<longrightarrow> loadFromFile w l config = (config, None))
       \<and> (\<forall>c err tr. Load w l hook config
              \<noteq> (c, Failed (Wrapped ''failed to load config from file'' err), tr))
       \<and> fst (Load w l hook config) = fst (Load w (l\<lparr>configPath := []\<rparr>) hook config)
       \<and> fst (snd (Load w l hook config)) = fst (snd (Load w (l\<lparr>configPath := []\<rparr>) hook config))"
proof -
  have a: "file_phase w l config = (config, None)"
    using assms by (auto simp: file_phase_def loadFromFile_def)
  then have b: "configPath l \<noteq> [] \<longrightarrow> loadFromFile w l config = (config, None)"
    by (auto simp: file_phase_def)
  have c: "\<forall>c err tr. Load w l hook config
              \<noteq> (c, Failed (Wrapped ''failed to load config from file'' err), tr)"
  proof (intro allI notI)
    fix c err tr
    assume h: "Load w l hook config = (c, Failed (Wrapped ''failed to load config from file'' err), tr)"
    obtain c2 e2 rd where le: "loadFromEnv w (envPrefix l) config = (c2, e2, rd)"
      by (cases "loadFromEnv w (envPrefix l) config") auto
    show False
    proof (cases e2)
      case None
      from Load_after_env [OF a le [unfolded None], of hook] h show False by auto
    next
      case (Some e)
      from Load_env_failure [OF a le [unfolded Some], of hook] h show False by auto
    qed
  qed
  from a b c Load_no_file [OF a, of hook] show ?thesis by (intro conjI) simp_all
qed

theorem C6_missing_file_is_noop_witness:
  "ReadFile (example_world server_env no_files) ''missing.yaml'' = NotExist
   \<and> loadFromFile (example_world server_env no_files) (NewLoader ''missing.yaml'' ''APP_'')
         (server_target 0 ''keep'') = (server_target 0 ''keep'', None)
   \<and> Load (example_world server_env no_files) (NewLoader ''missing.yaml'' ''APP_'') None
         (server_target 0 ''keep'')
       = (server_target 30 ''keep'', Done, [FilePhase, EnvPhase, InterpolationPhase])"
proof -
  have h: "ReadFile (example_world server_env no_files) ''missing.yaml'' = NotExist"
    by (simp add: example_world_def no_files_def)
  have p: "configPath (NewLoader ''missing.yaml'' ''APP_'') = ''missing.yaml''"
    by (simp add: NewLoader_def)
  have "loadFromFile (example_world server_env no_files) (NewLoader ''missing.yaml'' ''APP_'')
         (server_target 0 ''keep'') = (server_target 0 ''keep'', None)"
    using C6_missing_file_is_noop
            [of "NewLoader ''missing.yaml'' ''APP_''" "example_world server_env no_files"
                "server_target 0 ''keep''" None, THEN conjunct2, THEN conjunct1]
          h p by simp
  moreover have "Load (example_world server_env no_files) (NewLoader ''missing.yaml'' ''APP_'') None
         (server_target 0 ''keep'')
       = (server_target 30 ''keep'', Done, [FilePhase, EnvPhase, InterpolationPhase])"
    by code_simp
  ultimately show ?thesis using h by simp
qed

text \<open>
  Claim C7, as the specification states it: every non-empty path whose extension is
  neither YAML nor JSON makes the file phase fail with an \<open>UnsupportedFormatError\<close>.
  The code reads the file before it looks at the extension, so a path that names no
  file succeeds whatever its extension: \<^verbatim>\<open>c.toml\<close>, where no such file exists.
\<close>

theorem C7_counterexample:
  "ToLower (Ext ''c.toml'') = ''.toml''
   \<and> loadFromFile (example_world Map.empty no_files) (NewLoader ''c.toml'' []) (name_target ''a'')
       = (name_target ''a'', None)
   \<and> Load (example_world Map.empty no_files) (NewLoader ''c.toml'' []) None (name_target ''a'')
       = (name_target ''a'', Done, [FilePhase, EnvPhase, InterpolationPhase])"
  by code_simp

text \<open>
  Claim C7, amended, for a non-empty path. When the path names a file that was read,
  and its extension in lower case is none of \<^verbatim>\<open>.yaml\<close>, \<^verbatim>\<open>.yml\<close> and \<^verbatim>\<open>.json\<close>, the file phase
  fails with an \<open>UnsupportedFormatError\<close> that names that extension, the target is left
  as it was, and \<open>Load\<close> stops there. When the file does not exist, the phase succeeds
  and leaves the target as it was, whatever the extension. When the file exists and
  cannot be read, the phase fails with the read error, whatever the extension, and
  \<open>Load\<close> stops there.
\<close>

theorem C7_unsupported_format:
  assumes "configPath l \<noteq> []"
  shows "(ReadFile w (configPath l) = Content data
            \<and> ToLower (Ext (configPath l)) \<notin> {''.yaml'', ''.yml'', ''.json''} \<longrightarrow>
            loadFromFile w l config
              = (config, Some (UnsupportedFormatError (ToLower (Ext (configPath l)))))
          \<and> Load w l hook config
              = (config,
                 Failed (Wrapped ''failed to load config from file''
                           (UnsupportedFormatError (ToLower (Ext (configPath l))))),
                 [FilePhase]))
       \<and> (ReadFile w (configPath l) = NotExist \<longrightarrow>
            loadFromFile w l config = (config, None)
          \<and> file_phase w l config = (config, None)
          \<and> (\<forall>c err tr. Load w l hook config
                 \<noteq> (c, Failed (Wrapped ''failed to load config from file'' err), tr)))
       \<and> (ReadFile w (configPath l) = ReadFailed cause \<longrightarrow>
            loadFromFile w l config = (config, Some (ConfigReadError cause))
          \<and> Load w l hook config
              = (config,
                 Failed (Wrapped ''failed to load config from file'' (ConfigReadError cause)),
                 [FilePhase]))"
proof -
  have A: "ReadFile w (configPath l) = Content data
            \<and> ToLower (Ext (configPath l)) \<notin> {''.yaml'', ''.yml'', ''.json''} \<longrightarrow>
            loadFromFile w l config
              = (config, Some (UnsupportedFormatError (ToLower (Ext (configPath l)))))
          \<and> Load w l hook config
              = (config,
                 Failed (Wrapped ''failed to load config from file''
                           (UnsupportedFormatError (ToLower (Ext (configPath l))))),
                 [FilePhase])"
  proof
    assume h: "ReadFile w (configPath l) = Content data
            \<and> ToLower (Ext (configPath l)) \<notin> {''.yaml'', ''.yml'', ''.json''}"
    then have a: "loadFromFile w l config
           = (config, Some (UnsupportedFormatError (ToLower (Ext (configPath l)))))"
      by (simp add: loadFromFile_def Let_def)
    then show "loadFromFile w l config
              = (config, Some (UnsupportedFormatError (ToLower (Ext (configPath l)))))
          \<and> Load w l hook config
              = (config,
                 Failed (Wrapped ''failed to load config from file''
                           (UnsupportedFormatError (ToLower (Ext (configPath l))))),
                 [FilePhase])"
      using assms by (simp add: Load_def)
  qed
  have B: "ReadFile w (configPath l) = NotExist \<longrightarrow>
            loadFromFile w l config = (config, None)
          \<and> file_phase w l config = (config, None)
          \<and> (\<forall>c err tr. Load w l hook config
                 \<noteq> (c, Failed (Wrapped ''failed to load config from file'' err), tr))"
  proof
    assume h: "ReadFile w (configPath l) = NotExist"
    then have lf: "loadFromFile w l config = (config, None)"
      by (simp add: loadFromFile_def)
    then have fp: "file_phase w l config = (config, None)"
      using assms by (simp add: file_phase_def)
    have "\<forall>c err tr. Load w l hook config
                 \<noteq> (c, Failed (Wrapped ''failed to load config from file'' err), tr)"
    proof (intro allI notI)
      fix c err tr
      assume ld: "Load w l hook config
                    = (c, Failed (Wrapped ''failed to load config from file'' err), tr)"
      obtain c2 e2 rd where le: "loadFromEnv w (envPrefix l) config = (c2, e2, rd)"
        by (cases "loadFromEnv w (envPrefix l) config") auto
      show False
      proof (cases e2)
        case None
        from Load_after_env [OF fp le [unfolded None], of hook] ld show False by auto
      next
        case (Some e)
        from Load_env_failure [OF fp le [unfolded Some], of hook] ld show False by auto
      qed
    qed
    with lf fp show "loadFromFile w l config = (config, None)
          \<and> file_phase w l config = (config, None)
          \<and> (\<forall>c err tr. Load w l hook config
                 \<noteq> (c, Failed (Wrapped ''failed to load config from file'' err), tr))"
      by (intro conjI)
  qed
  have C: "ReadFile w (configPath l) = ReadFailed cause \<longrightarrow>
            loadFromFile w l config = (config, Some (ConfigReadError cause))
          \<and> Load w l hook config
              = (config,
                 Failed (Wrapped ''failed to load config from file'' (ConfigReadError cause)),
                 [FilePhase])"
  proof
    assume h: "ReadFile w (configPath l) = ReadFailed cause"
    then have a: "loadFromFile w l config = (config, Some (ConfigReadError cause))"
      by (simp add: loadFromFile_def)
    then show "loadFromFile w l config = (config, Some (ConfigReadError cause))
          \<and> Load w l hook config
              = (config,
                 Failed (Wrapped ''failed to load config from file'' (ConfigReadError cause)),
                 [FilePhase])"
      using assms by (simp add: Load_def)
  qed
  from A B C show ?thesis by (intro conjI)
qed

theorem C7_unsupported_format_witness:
  "configPath (NewLoader ''conf.TOML'' []) \<noteq> []
   \<and> ReadFile (example_world Map.empty toml_file) ''conf.TOML'' = Content ''port = 1''
   \<and> ToLower (Ext ''conf.TOML'') = ''.toml''
   \<and> Load (example_world Map.empty toml_file) (NewLoader ''conf.TOML'' []) None (name_target ''a'')
       = (name_target ''a'',
          Failed (Wrapped ''failed to load config from file'' (UnsupportedFormatError ''.toml'')),
          [FilePhase])
   \<and> ReadFile (example_world Map.empty no_files) ''c.toml'' = NotExist
   \<and> loadFromFile (example_world Map.empty no_files) (NewLoader ''c.toml'' []) (name_target ''a'')
       = (name_target ''a'', None)
   \<and> ReadFile (example_world Map.empty locked_file) ''locked.toml''
       = ReadFailed ''permission denied''
   \<and> Load (example_world Map.empty locked_file) (NewLoader ''locked.toml'' []) None
         (name_target ''a'')
       = (name_target ''a'',
          Failed (Wrapped ''failed to load config from file''
                    (ConfigReadError ''permission denied'')),
          [FilePhase])"
proof -
  have p: "configPath (NewLoader ''conf.TOML'' []) = ''conf.TOML''"
    "configPath (NewLoader ''c.toml'' []) = ''c.toml''"
    "configPath (NewLoader ''locked.toml'' []) = ''locked.toml''"
    by (simp_all add: NewLoader_def)
  have r: "ReadFile (example_world Map.empty toml_file) ''conf.TOML'' = Content ''port = 1''"
    by (simp add: example_world_def toml_file_def)
  have x: "ToLower (Ext ''conf.TOML'') = ''.toml''"
    by code_simp
  have n: "ReadFile (example_world Map.empty no_files) ''c.toml'' = NotExist"
    by (simp add: example_world_def no_files_def)
  have k: "ReadFile (example_world Map.empty locked_file) ''locked.toml''
             = ReadFailed ''permission denied''"
    by (simp add: example_world_def locked_file_def)
  have t1: "Load (example_world Map.empty toml_file) (NewLoader ''conf.TOML'' []) None (name_target ''a'')
       = (name_target ''a'',
          Failed (Wrapped ''failed to load config from file''
                    (UnsupportedFormatError (ToLower (Ext (configPath (NewLoader ''conf.TOML'' [])))))),
          [FilePhase])"
    using C7_unsupported_format
            [of "NewLoader ''conf.TOML'' []" "example_world Map.empty toml_file" "''port = 1''"
                "name_target ''a''" None, THEN conjunct1]
          p r x by simp
  have t2: "loadFromFile (example_world Map.empty no_files) (NewLoader ''c.toml'' []) (name_target ''a'')
       = (name_target ''a'', None)"
    using C7_unsupported_format
            [of "NewLoader ''c.toml'' []" "example_world Map.empty no_files" _
                "name_target ''a''" None, THEN conjunct2, THEN conjunct1]
          p n by simp
  have t3: "Load (example_world Map.empty locked_file) (NewLoader ''locked.toml'' []) None
         (name_target ''a'')
       = (name_target ''a'',
          Failed (Wrapped ''failed to load config from file''
                    (ConfigReadError ''permission denied'')),
          [FilePhase])"
    using C7_unsupported_format
            [of "NewLoader ''locked.toml'' []" "example_world Map.empty locked_file" _
                "name_target ''a''" None "''permission denied''", THEN conjunct2, THEN conjunct2]
          p k by simp
  from t1 t2 t3 p r x n k show ?thesis by simp
qed

text \<open>
  Claim C8. A field whose override key is the sentinel \<^verbatim>\<open>-\<close> is never read from the
  environment and never modified by the overlay, at any depth and whatever the
  environment holds: the field at any path \<open>p\<close> is the same after \<open>loadStructFromEnv\<close>,
  also when the call fails; no path at or below it is a leaf; and every key the call
  read is the key of a leaf, hence of a field that is not at or below it.
\<close>

theorem C8_sentinel_never_overlaid:
  assumes "loadStructFromEnv w fs pfx = (fs', e, rd)"
    and "field_at fs p = Some f"
    and "ftag f = ''-''"
  shows "field_at fs' p = Some f
       \<and> (\<forall>q. leaf_at pfx fs (p @ q) = None)
       \<and> (\<forall>k \<in> set rd. \<exists>q g. leaf_at pfx fs q = Some (k, g) \<and> \<not> prefix p q)"
proof -
  have nv: "\<not> visited f" using assms(3) by (simp add: visited_def envKey_def)
  from overlay_frame [OF assms(1,2)] nv have a: "field_at fs' p = Some f" by auto
  have b: "\<forall>q. leaf_at pfx fs (p @ q) = None"
    using unvisited_no_leaf [OF assms(2) nv] by blast
  have "\<exists>q g. leaf_at pfx fs q = Some (k, g) \<and> \<not> prefix p q" if "k \<in> set rd" for k
  proof -
    from overlay_reads [OF assms(1)] that have "k \<in> set (spec_env_keys pfx fs)"
      using set_mono_prefix by blast
    from spec_key_is_leaf [OF this] obtain q g where q: "leaf_at pfx fs q = Some (k, g)"
      by blast
    have "\<not> prefix p q" using b q by (auto simp: prefix_def)
    with q show ?thesis by blast
  qed
  with a b show ?thesis by blast
qed

theorem C8_sentinel_never_overlaid_witness:
  "loadStructFromEnv (example_world server_env no_files) (server_fields 0 ''keep'') ''APP_''
     = (server_fields 30 ''keep'', None, [''APP_SERVER_TIMEOUT'', ''APP_TAGS''])
   \<and> field_at (server_fields 0 ''keep'') [0, 1]
       = Some (Field ''Secret'' ''-'' Exported (VString ''string'' ''keep''))
   \<and> field_at (server_fields 30 ''keep'') [0, 1]
       = Some (Field ''Secret'' ''-'' Exported (VString ''string'' ''keep''))
   \<and> Getenv server_env ''APP_SERVER_SECRET'' = ''leak''"
proof -
  have h: "loadStructFromEnv (example_world server_env no_files) (server_fields 0 ''keep'') ''APP_''
     = (server_fields 30 ''keep'', None, [''APP_SERVER_TIMEOUT'', ''APP_TAGS''])"
    by code_simp
  have f: "field_at (server_fields 0 ''keep'') [0, 1]
       = Some (Field ''Secret'' ''-'' Exported (VString ''string'' ''keep''))"
    by (simp add: server_fields_def)
  have g: "Getenv server_env ''APP_SERVER_SECRET'' = ''leak''"
    by (simp add: Getenv_def server_env_def)
  from C8_sentinel_never_overlaid [OF h f] h f g show ?thesis by simp
qed

text \<open>
  Claim C9. After phases 1 and 2 have succeeded, the interpolation phase can still end
  the load: \<^verbatim>\<open>SetMapIndex\<close> panics when \<open>substituteValue\<close> replaces a string in a map whose
  element type is a named string type (or in a map reached through an unexported
  field). For the target \<^verbatim>\<open>struct { Labels map[string]Label }\<close> with \<^verbatim>\<open>type Label string\<close>,
  no file and an empty environment, the load panics in the interpolation phase and
  \<^verbatim>\<open>SetDefaults\<close> is not called, although the target has the method.
\<close>

theorem C9_interpolation_panics:
  "Load (example_world Map.empty no_files) (NewLoader [] []) (Some (\<lambda>c. c)) labels_target
     = (labels_target, Panicked (panic_not_assignable ''config.Label''),
        [EnvPhase, InterpolationPhase])"
  by code_simp



end
